theory Spec2Isabelle
  imports Main "HOL-Library.AList"
begin

section \<open>The GFF3 validator of \<open>src/python/gff3-validator.py\<close>\<close>

text \<open>
  The class \<open>GFF3Validator\<close> checks a GFF3 file line by line (\<open>validate_line\<close>) and
  then as a whole (\<open>validate_file\<close>). The embedding follows the Python text: the three
  attributes \<open>seen_ids\<close>, \<open>parent_relationships\<close> and \<open>feature_types\<close> of the object are
  a record that is passed in and returned, a dictionary is an association list in
  insertion order (\<open>AList.update\<close> overwrites in place or appends, as a Python \<open>dict\<close>
  does), and every exception the Python can raise is a value \<open>Inl\<close> of a sum.

  A Python \<open>str\<close> is modelled as a \<open>string\<close> whose characters are the code points
  0 to 255. An exception ends \<open>validate_line\<close> and, since nothing catches it,
  \<open>validate_file\<close>; the state the object is left in is not part of the model, and
  \<open>validate_file\<close> starts from a fresh state in any case.
\<close>

subsection \<open>The string operations of Python that the validator calls\<close>

definition py_isspace :: "char \<Rightarrow> bool" where
  \<comment> \<open>\<open>str.isspace\<close> on one character, for the code points below 256.\<close>
  "py_isspace c \<longleftrightarrow> c \<in> set [CHR 0x09, CHR 0x0A, CHR 0x0B, CHR 0x0C, CHR 0x0D,
     CHR 0x1C, CHR 0x1D, CHR 0x1E, CHR 0x1F, CHR 0x20, CHR 0x85, CHR 0xA0]"

definition py_strip :: "string \<Rightarrow> string" where
  \<comment> \<open>\<open>s.strip()\<close>\<close>
  "py_strip s = rev (dropWhile py_isspace (rev (dropWhile py_isspace s)))"

fun py_split :: "char \<Rightarrow> string \<Rightarrow> string list" where
  \<comment> \<open>\<open>s.split(sep)\<close> for a separator of one character; the result is never empty.\<close>
  "py_split sep [] = [[]]"
| "py_split sep (c # cs) =
     (if c = sep then [] # py_split sep cs
      else (case py_split sep cs of
              [] \<Rightarrow> [[c]]
            | w # ws \<Rightarrow> (c # w) # ws))"

definition py_split1 :: "char \<Rightarrow> string \<Rightarrow> string \<times> string" where
  \<comment> \<open>\<open>s.split(sep, 1)\<close> when \<open>sep\<close> occurs in \<open>s\<close>: the text before the first
      separator and the text after it.\<close>
  "py_split1 sep s = (takeWhile (\<lambda>c. c \<noteq> sep) s, drop 1 (dropWhile (\<lambda>c. c \<noteq> sep) s))"

fun split_ws_from :: "string \<Rightarrow> string \<Rightarrow> string list" where
  "split_ws_from cur [] = (if cur = [] then [] else [cur])"
| "split_ws_from cur (c # cs) =
     (if py_isspace c then (if cur = [] then split_ws_from [] cs else cur # split_ws_from [] cs)
      else split_ws_from (cur @ [c]) cs)"

definition py_split_ws :: "string \<Rightarrow> string list" where
  \<comment> \<open>\<open>s.split()\<close>: the maximal runs of characters that are not whitespace.\<close>
  "py_split_ws s = split_ws_from [] s"

fun py_join :: "string \<Rightarrow> string list \<Rightarrow> string" where
  \<comment> \<open>\<open>sep.join(xs)\<close>\<close>
  "py_join sep [] = []"
| "py_join sep [x] = x"
| "py_join sep (x # y # ys) = x @ sep @ py_join sep (y # ys)"

definition is_digit :: "char \<Rightarrow> bool" where
  "is_digit c \<longleftrightarrow> c \<in> set ''0123456789''"

definition digit_val :: "char \<Rightarrow> nat" where
  "digit_val c = of_char c - 48"

fun py_digits :: "nat \<Rightarrow> string \<Rightarrow> nat option" where
  \<comment> \<open>The rest of a decimal literal after a digit: digits, with single underscores only
      between two digits.\<close>
  "py_digits acc [] = Some acc"
| "py_digits acc [c] = (if is_digit c then Some (10 * acc + digit_val c) else None)"
| "py_digits acc (c # d # ds) =
     (if is_digit c then py_digits (10 * acc + digit_val c) (d # ds)
      else if c = CHR ''_'' \<and> is_digit d then py_digits (10 * acc + digit_val d) ds
      else None)"

definition max_str_digits :: nat where
  \<comment> \<open>\<open>sys.int_info.default_max_str_digits\<close>: since CPython 3.11 a decimal text with more
      digits is refused with \<open>ValueError\<close>.\<close>
  "max_str_digits = 4300"

definition py_nat :: "string \<Rightarrow> nat option" where
  "py_nat s =
     (if max_str_digits < length (filter is_digit s) then None
      else (case s of
              [] \<Rightarrow> None
            | c # cs \<Rightarrow> if is_digit c then py_digits (digit_val c) cs else None))"

definition int_isspace :: "char \<Rightarrow> bool" where
  \<comment> \<open>The whitespace that \<open>int\<close> skips around the number: unlike \<open>str.isspace\<close> it leaves
      out the four separators \<open>0x1C\<close> to \<open>0x1F\<close>.\<close>
  "int_isspace c \<longleftrightarrow> c \<in> set [CHR 0x09, CHR 0x0A, CHR 0x0B, CHR 0x0C, CHR 0x0D,
     CHR 0x20, CHR 0x85, CHR 0xA0]"

definition py_int :: "string \<Rightarrow> int option" where
  \<comment> \<open>\<open>int(s)\<close>: surrounding whitespace is dropped, one sign is allowed, then a decimal
      literal. \<open>None\<close> is the \<open>ValueError\<close>.\<close>
  "py_int s =
     (case rev (dropWhile int_isspace (rev (dropWhile int_isspace s))) of
        [] \<Rightarrow> None
      | c # cs \<Rightarrow>
          if c = CHR ''-'' then map_option (\<lambda>n. - int n) (py_nat cs)
          else if c = CHR ''+'' then map_option int (py_nat cs)
          else map_option int (py_nat (c # cs)))"

definition id_char :: "char \<Rightarrow> bool" where
  \<comment> \<open>The character class \<open>[a-zA-Z0-9.:^*$@!+_?-]\<close>.\<close>
  "id_char c \<longleftrightarrow> c \<in> set (''abcdefghijklmnopqrstuvwxyz'' @ ''ABCDEFGHIJKLMNOPQRSTUVWXYZ''
     @ ''0123456789'' @ ''.:^*$@!+_?-'')"

definition id_pattern :: "string \<Rightarrow> bool" where
  \<comment> \<open>\<open>re.match(r'^[a-zA-Z0-9.:^*$@!+_?-]+$', s)\<close> finds a match. Without the MULTILINE
      flag \<open>$\<close> matches at the end of the text and also before a newline that ends it.\<close>
  "id_pattern s \<longleftrightarrow>
     (s \<noteq> [] \<and> list_all id_char s) \<or>
     (s \<noteq> [] \<and> last s = CHR 0x0A \<and> butlast s \<noteq> [] \<and> list_all id_char (butlast s))"

definition starts_with_hash :: "string \<Rightarrow> bool" where
  \<comment> \<open>\<open>line.startswith('#')\<close>\<close>
  "starts_with_hash line = (case line of [] \<Rightarrow> False | c # _ \<Rightarrow> c = CHR ''#'')"

subsection \<open>Data\<close>

datatype exn = UnboundLocalError | AttributeError | TypeError | KeyError

datatype attr_value = Str string | Flag
  \<comment> \<open>A value of \<open>attr_dict\<close>: the text after \<open>=\<close>, or the Python value \<open>True\<close>.\<close>

fun format_value :: "attr_value \<Rightarrow> string" where
  \<comment> \<open>What an f-string prints for the value.\<close>
  "format_value (Str s) = s"
| "format_value Flag = ''True''"

datatype err_value = Msg string | Msgs "string list"
  \<comment> \<open>A value of the dictionary \<open>validate_line\<close> returns: one text, or a list of texts.\<close>

type_synonym errors = "(string \<times> err_value) list"

type_synonym attr_dict = "(string \<times> attr_value) list"

text \<open>
  The schema view and the class and slot definitions come from \<open>linkml_runtime\<close>, which
  is not part of the repository. Their answers are parameters: \<open>has_class\<close> and
  \<open>has_slot\<close> for the two methods of the schema view, \<open>class_typeof name v\<close> for
  \<open>class_definitions[name].typeof(v)\<close>, \<open>slot_typeof name v\<close> for
  \<open>slot_definitions[name].typeof(v)\<close>, and \<open>type_permissible_values\<close> for
  \<open>class_definitions['Type'].permissible_values\<close>, \<open>None\<close> when that dictionary has no
  key \<open>'Type'\<close>.

  Line 248 joins the elements of a Python \<open>set\<close> of these permissible values, and the
  order in which a set of strings is iterated depends on the hash seed of the process.
  That order is a parameter too: \<open>missing_types_order ts\<close> is the order in which Python
  iterates the set whose elements are \<open>ts\<close>, a rearrangement of \<open>ts\<close>.
\<close>

record schema =
  has_class :: "string \<Rightarrow> bool"
  class_typeof :: "string \<Rightarrow> string \<Rightarrow> bool"
  has_slot :: "string \<Rightarrow> bool"
  slot_typeof :: "string \<Rightarrow> attr_value \<Rightarrow> bool"
  type_permissible_values :: "string list option"
  missing_types_order :: "string list \<Rightarrow> string list"

record vstate =
  seen_ids :: "string set"
  parent_relationships :: "(string \<times> string list) list"
  feature_types :: "string set"

subsection \<open>Sequencing with exceptions\<close>

definition and_then :: "exn + 'a \<Rightarrow> ('a \<Rightarrow> exn + 'b) \<Rightarrow> exn + 'b" where
  "and_then m f = (case m of Inl e \<Rightarrow> Inl e | Inr x \<Rightarrow> f x)"

fun for_each :: "('a \<Rightarrow> 's \<Rightarrow> exn + 's) \<Rightarrow> 'a list \<Rightarrow> 's \<Rightarrow> exn + 's" where
  \<comment> \<open>A \<open>for\<close> loop over a list whose body may raise.\<close>
  "for_each body [] s = Inr s"
| "for_each body (x # xs) s = and_then (body x s) (for_each body xs)"

definition append_msg :: "string \<Rightarrow> string \<Rightarrow> errors \<Rightarrow> exn + errors" where
  \<comment> \<open>\<open>errors.setdefault(key, []).append(msg)\<close>; a \<open>str\<close> has no \<open>append\<close>.\<close>
  "append_msg key msg errs =
     (case map_of errs key of
        None \<Rightarrow> Inr (AList.update key (Msgs [msg]) errs)
      | Some (Msgs ms) \<Rightarrow> Inr (AList.update key (Msgs (ms @ [msg])) errs)
      | Some (Msg _) \<Rightarrow> Inl AttributeError)"

subsection \<open>\<open>validate_line\<close>: the positional fields (lines 47 to 83)\<close>

definition check_seqid :: "schema \<Rightarrow> string \<Rightarrow> errors \<Rightarrow> errors" where
  "check_seqid sch seqid errs =
     (if \<not> has_class sch ''Seqid'' \<or> \<not> class_typeof sch ''Seqid'' seqid
      then AList.update ''seqid'' (Msg (''Invalid seqid: '' @ seqid)) errs else errs)"

definition check_source :: "schema \<Rightarrow> string \<Rightarrow> errors \<Rightarrow> errors" where
  "check_source sch source errs =
     (if \<not> has_class sch ''Source'' \<or> \<not> class_typeof sch ''Source'' source
      then AList.update ''source'' (Msg (''Invalid source: '' @ source)) errs else errs)"

definition check_type :: "schema \<Rightarrow> string \<Rightarrow> errors \<times> vstate \<Rightarrow> errors \<times> vstate" where
  "check_type sch type es =
     (if \<not> has_class sch ''Type'' \<or> \<not> class_typeof sch ''Type'' type
      then (AList.update ''type'' (Msg (''Invalid type: '' @ type)) (fst es), snd es)
      else (fst es, (snd es)\<lparr>feature_types := insert type (feature_types (snd es))\<rparr>))"

definition check_positions :: "string \<Rightarrow> string \<Rightarrow> errors \<Rightarrow> errors" where
  \<comment> \<open>The \<open>try\<close> block: both conversions come before the two comparisons, and a
      \<open>ValueError\<close> of either one runs the \<open>except\<close> branch.\<close>
  "check_positions start end errs =
     (let invalid = AList.update ''end'' (Msg (''Invalid end position: '' @ end))
                      (AList.update ''start'' (Msg (''Invalid start position: '' @ start)) errs)
      in case py_int start of
           None \<Rightarrow> invalid
         | Some start_int \<Rightarrow>
             (case py_int end of
                None \<Rightarrow> invalid
              | Some end_int \<Rightarrow>
                  (let errs1 = (if start_int < 1
                                then AList.update ''start''
                                       (Msg (''Start position must be >= 1: '' @ start)) errs
                                else errs)
                   in if end_int < start_int
                      then AList.update ''end''
                             (Msg (''End position must be >= start position: '' @ end)) errs1
                      else errs1)))"

definition check_score :: "schema \<Rightarrow> string \<Rightarrow> errors \<Rightarrow> errors" where
  "check_score sch score errs =
     (if score \<noteq> ''.'' \<and> (\<not> has_slot sch ''score'' \<or> \<not> slot_typeof sch ''score'' (Str score))
      then AList.update ''score'' (Msg (''Invalid score: '' @ score)) errs else errs)"

definition check_strand :: "string \<Rightarrow> errors \<Rightarrow> errors" where
  "check_strand strand errs =
     (if strand \<notin> set [''+'', ''-'', ''.'']
      then AList.update ''strand'' (Msg (''Invalid strand: '' @ strand)) errs else errs)"

definition check_phase :: "schema \<Rightarrow> string \<Rightarrow> errors \<Rightarrow> errors" where
  "check_phase sch phase errs =
     (if phase \<noteq> ''.'' \<and> (\<not> has_slot sch ''phase'' \<or> \<not> slot_typeof sch ''phase'' (Str phase))
      then AList.update ''phase'' (Msg (''Invalid phase: '' @ phase)) errs else errs)"

subsection \<open>\<open>validate_line\<close>: the attribute dictionary (lines 86 to 96)\<close>

definition parse_attr :: "string \<Rightarrow> attr_dict \<Rightarrow> attr_dict" where
  \<comment> \<open>The body of the loop over \<open>attributes.split(';')\<close>.\<close>
  "parse_attr attr d =
     (if CHR ''='' \<in> set attr
      then (case py_split1 (CHR ''='') attr of (key, v) \<Rightarrow> AList.update key (Str v) d)
      else AList.update attr Flag d)"

definition parse_attributes :: "string \<Rightarrow> attr_dict" where
  "parse_attributes attributes = fold parse_attr (py_split (CHR '';'') attributes) []"

definition check_attribute :: "schema \<Rightarrow> string \<times> attr_value \<Rightarrow> errors \<Rightarrow> errors" where
  "check_attribute sch kv errs =
     (case kv of (key, v) \<Rightarrow>
        if \<not> has_slot sch key \<or> \<not> slot_typeof sch key v
        then AList.update (''attribute.'' @ key)
               (Msg (''Invalid attribute: '' @ key @ ''='' @ format_value v)) errs
        else errs)"

definition check_attributes :: "schema \<Rightarrow> attr_dict \<Rightarrow> errors \<Rightarrow> errors" where
  "check_attributes sch d errs = fold (check_attribute sch) d errs"

subsection \<open>\<open>validate_line\<close>: the reserved attributes (lines 100 to 210)\<close>

definition check_id ::
  "attr_dict \<Rightarrow> errors \<Rightarrow> vstate \<Rightarrow> exn + (errors \<times> vstate \<times> string option)" where
  \<comment> \<open>Lines 100 to 112. The third component is the local variable \<open>id_value\<close>, \<open>None\<close>
      while it is unbound. For the flag \<open>ID\<close> the value is \<open>True\<close>, and \<open>re.match\<close> raises
      \<open>TypeError\<close> on it.\<close>
  "check_id d errs st =
     (case map_of d ''ID'' of
        None \<Rightarrow> Inr (errs, st, None)
      | Some Flag \<Rightarrow> Inl TypeError
      | Some (Str id_value) \<Rightarrow>
          (let (errs1, st1) =
                 (if id_value \<in> seen_ids st
                  then (AList.update ''id'' (Msg (''Duplicate ID: '' @ id_value)) errs, st)
                  else (errs, st\<lparr>seen_ids := insert id_value (seen_ids st)\<rparr>));
               errs2 = (if \<not> id_pattern id_value
                        then AList.update ''id''
                               (Msg (''Invalid characters in ID: '' @ id_value)) errs1
                        else errs1)
           in Inr (errs2, st1, Some id_value)))"

definition record_child ::
  "string \<Rightarrow> string \<Rightarrow> (string \<times> string list) list \<Rightarrow> (string \<times> string list) list" where
  \<comment> \<open>\<open>self.parent_relationships[parent_id].append(child)\<close> on a \<open>defaultdict(list)\<close>.\<close>
  "record_child parent_id child rel =
     AList.update parent_id
       ((case map_of rel parent_id of None \<Rightarrow> [] | Some cs \<Rightarrow> cs) @ [child]) rel"

definition parent_step ::
  "string option \<Rightarrow> string \<Rightarrow> errors \<times> vstate \<Rightarrow> exn + (errors \<times> vstate)" where
  \<comment> \<open>The body of the loop of lines 117 to 120; reading the unbound \<open>id_value\<close> raises.\<close>
  "parent_step id_value parent_id es =
     (case es of (errs, st) \<Rightarrow>
        and_then (if parent_id \<notin> seen_ids st
                  then append_msg ''parent'' (''Parent ID not found: '' @ parent_id) errs
                  else Inr errs)
          (\<lambda>errs1. case id_value of
                     None \<Rightarrow> Inl UnboundLocalError
                   | Some child \<Rightarrow>
                       Inr (errs1, st\<lparr>parent_relationships :=
                                        record_child parent_id child (parent_relationships st)\<rparr>)))"

definition check_parent ::
  "attr_dict \<Rightarrow> string option \<Rightarrow> errors \<times> vstate \<Rightarrow> exn + (errors \<times> vstate)" where
  "check_parent d id_value es =
     (case map_of d ''Parent'' of
        None \<Rightarrow> Inr es
      | Some Flag \<Rightarrow> Inl AttributeError
      | Some (Str parents) \<Rightarrow> for_each (parent_step id_value) (py_split (CHR '','') parents) es)"

definition circular_step ::
  "vstate \<Rightarrow> string option \<Rightarrow> string \<Rightarrow> errors \<Rightarrow> exn + errors" where
  \<comment> \<open>The body of the loop of lines 125 to 127.\<close>
  "circular_step st id_value parent_id errs =
     (case map_of (parent_relationships st) parent_id of
        None \<Rightarrow> Inr errs
      | Some children \<Rightarrow>
          (case id_value of
             None \<Rightarrow> Inl UnboundLocalError
           | Some child \<Rightarrow>
               if child \<in> set children
               then append_msg ''parent'' (''Circular reference detected for ID: '' @ child) errs
               else Inr errs))"

definition check_circular ::
  "attr_dict \<Rightarrow> string option \<Rightarrow> vstate \<Rightarrow> errors \<Rightarrow> exn + errors" where
  "check_circular d id_value st errs =
     (case map_of d ''Parent'' of
        None \<Rightarrow> Inr errs
      | Some Flag \<Rightarrow> Inl AttributeError
      | Some (Str parents) \<Rightarrow>
          for_each (circular_step st id_value) (py_split (CHR '','') parents) errs)"

definition check_alias :: "attr_dict \<Rightarrow> errors \<Rightarrow> exn + errors" where
  "check_alias d errs =
     (case map_of d ''Alias'' of
        None \<Rightarrow> Inr errs
      | Some Flag \<Rightarrow> Inl AttributeError
      | Some (Str aliases) \<Rightarrow>
          for_each (\<lambda>alias_value e.
                      if \<not> id_pattern alias_value
                      then append_msg ''alias'' (''Invalid characters in Alias: '' @ alias_value) e
                      else Inr e)
            (py_split (CHR '','') aliases) errs)"

definition check_note :: "attr_dict \<Rightarrow> errors \<Rightarrow> exn + errors" where
  "check_note d errs =
     (case map_of d ''Note'' of
        None \<Rightarrow> Inr errs
      | Some Flag \<Rightarrow> Inl AttributeError
      | Some (Str notes) \<Rightarrow>
          for_each (\<lambda>note_value e.
                      if note_value = [] then append_msg ''note'' ''Empty Note value'' e
                      else Inr e)
            (py_split (CHR '','') notes) errs)"

definition check_target_positions :: "string \<Rightarrow> string \<Rightarrow> errors \<Rightarrow> exn + errors" where
  \<comment> \<open>The \<open>try\<close> block of lines 152 to 160.\<close>
  "check_target_positions target_start target_end errs =
     (let invalid = append_msg ''target'' ''Invalid Target start or end position'' errs
      in case py_int target_start of
           None \<Rightarrow> invalid
         | Some start_int \<Rightarrow>
             (case py_int target_end of
                None \<Rightarrow> invalid
              | Some end_int \<Rightarrow>
                  and_then (if start_int < 1
                            then append_msg ''target''
                                   (''Target start position must be >= 1: '' @ target_start) errs
                            else Inr errs)
                    (\<lambda>errs1. if end_int < start_int
                              then append_msg ''target''
                                     (''Target end position must be >= start position: ''
                                        @ target_end) errs1
                              else Inr errs1)))"

definition check_target :: "attr_dict \<Rightarrow> vstate \<Rightarrow> errors \<Rightarrow> exn + errors" where
  "check_target d st errs =
     (case map_of d ''Target'' of
        None \<Rightarrow> Inr errs
      | Some Flag \<Rightarrow> Inl AttributeError
      | Some (Str target) \<Rightarrow>
          (case py_split_ws target of
             target_id # target_start # target_end # _ \<Rightarrow>
               and_then (if target_id \<notin> seen_ids st
                         then append_msg ''target'' (''Target ID not found: '' @ target_id) errs
                         else Inr errs)
                 (check_target_positions target_start target_end)
           | _ \<Rightarrow> append_msg ''target'' (''Invalid Target attribute: '' @ target) errs))"

definition check_derives_from :: "attr_dict \<Rightarrow> vstate \<Rightarrow> errors \<Rightarrow> exn + errors" where
  "check_derives_from d st errs =
     (case map_of d ''Derives_from'' of
        None \<Rightarrow> Inr errs
      | Some Flag \<Rightarrow> Inl AttributeError
      | Some (Str derives) \<Rightarrow>
          for_each (\<lambda>derives_from_value e.
                      if derives_from_value \<notin> seen_ids st
                      then append_msg ''derives_from''
                             (''Derives_from ID not found: '' @ derives_from_value) e
                      else Inr e)
            (py_split (CHR '','') derives) errs)"

definition check_gap :: "attr_dict \<Rightarrow> errors \<Rightarrow> exn + errors" where
  "check_gap d errs =
     (case map_of d ''Gap'' of
        None \<Rightarrow> Inr errs
      | Some Flag \<Rightarrow> Inl AttributeError
      | Some (Str gap) \<Rightarrow>
          (let gap_values = py_split_ws gap
           in if length gap_values < 2
              then append_msg ''gap'' (''Invalid Gap attribute: '' @ gap) errs
              else (case py_int (gap_values ! 0) of
                      None \<Rightarrow> append_msg ''gap'' (''Invalid Gap length: '' @ gap_values ! 0) errs
                    | Some gap_length \<Rightarrow>
                        if gap_length < 0
                        then append_msg ''gap'' (''Invalid Gap length: '' @ gap_values ! 0) errs
                        else Inr errs)))"

definition check_replacement :: "attr_dict \<Rightarrow> errors \<Rightarrow> exn + errors" where
  "check_replacement d errs =
     (case map_of d ''Replacement'' of
        None \<Rightarrow> Inr errs
      | Some Flag \<Rightarrow> Inl TypeError
      | Some (Str replacement_value) \<Rightarrow>
          if length replacement_value \<noteq> 1
          then append_msg ''replacement'' (''Invalid Replacement value: '' @ replacement_value) errs
          else Inr errs)"

definition check_sequence :: "attr_dict \<Rightarrow> errors \<Rightarrow> exn + errors" where
  "check_sequence d errs =
     (case map_of d ''Sequence'' of
        None \<Rightarrow> Inr errs
      | Some Flag \<Rightarrow> Inl TypeError
      | Some (Str sequence_value) \<Rightarrow>
          if \<not> list_all (\<lambda>c. c \<in> set ''ACGTacgt'') sequence_value
          then append_msg ''sequence'' (''Invalid characters in Sequence: '' @ sequence_value) errs
          else Inr errs)"

definition check_variant_seq :: "attr_dict \<Rightarrow> errors \<Rightarrow> exn + errors" where
  "check_variant_seq d errs =
     (case map_of d ''Variant_seq'' of
        None \<Rightarrow> Inr errs
      | Some Flag \<Rightarrow> Inl TypeError
      | Some (Str variant_seq_value) \<Rightarrow>
          if \<not> list_all (\<lambda>c. c \<in> set ''ACGTacgt'') variant_seq_value
          then append_msg ''variant_seq''
                 (''Invalid characters in Variant_seq: '' @ variant_seq_value) errs
          else Inr errs)"

definition check_amino_acid :: "attr_dict \<Rightarrow> errors \<Rightarrow> exn + errors" where
  "check_amino_acid d errs =
     (case map_of d ''Amino_acid'' of
        None \<Rightarrow> Inr errs
      | Some Flag \<Rightarrow> Inl TypeError
      | Some (Str amino_acid_value) \<Rightarrow>
          if \<not> list_all (\<lambda>c. c \<in> set ''ACDEFGHIKLMNPQRSTVWYacdefghiklmnpqrstvwy*'')
                 amino_acid_value
          then append_msg ''amino_acid''
                 (''Invalid characters in Amino_acid: '' @ amino_acid_value) errs
          else Inr errs)"

definition check_codon :: "attr_dict \<Rightarrow> errors \<Rightarrow> exn + errors" where
  "check_codon d errs =
     (case map_of d ''Codon'' of
        None \<Rightarrow> Inr errs
      | Some Flag \<Rightarrow> Inl TypeError
      | Some (Str codon_value) \<Rightarrow>
          if length codon_value \<noteq> 3 \<or> \<not> list_all (\<lambda>c. c \<in> set ''ACGTacgt'') codon_value
          then append_msg ''codon'' (''Invalid Codon value: '' @ codon_value) errs
          else Inr errs)"

subsection \<open>\<open>validate_line\<close>\<close>

definition validate_fields :: "schema \<Rightarrow> string list \<Rightarrow> vstate \<Rightarrow> errors \<times> vstate" where
  \<comment> \<open>Lines 45 to 83, on the nine fields of the line (\<open>flds\<close> is the list \<open>fields\<close>).\<close>
  "validate_fields sch flds st =
     (let errs = check_seqid sch (flds ! 0) [];
          errs = check_source sch (flds ! 1) errs;
          (errs, st1) = check_type sch (flds ! 2) (errs, st);
          errs = check_positions (flds ! 3) (flds ! 4) errs;
          errs = check_score sch (flds ! 5) errs;
          errs = check_strand (flds ! 6) errs;
          errs = check_phase sch (flds ! 7) errs
      in (errs, st1))"

definition reserved_checks :: "attr_dict \<Rightarrow> errors \<Rightarrow> vstate \<Rightarrow> exn + (errors \<times> vstate)" where
  \<comment> \<open>Lines 100 to 212, in the order of the source.\<close>
  "reserved_checks d errs st =
     and_then (check_id d errs st) (\<lambda>(errs, st, id_value).
     and_then (check_parent d id_value (errs, st)) (\<lambda>(errs, st).
     and_then (check_circular d id_value st errs) (\<lambda>errs.
     and_then (check_alias d errs) (\<lambda>errs.
     and_then (check_note d errs) (\<lambda>errs.
     and_then (check_target d st errs) (\<lambda>errs.
     and_then (check_derives_from d st errs) (\<lambda>errs.
     and_then (check_gap d errs) (\<lambda>errs.
     and_then (check_replacement d errs) (\<lambda>errs.
     and_then (check_sequence d errs) (\<lambda>errs.
     and_then (check_variant_seq d errs) (\<lambda>errs.
     and_then (check_amino_acid d errs) (\<lambda>errs.
     and_then (check_codon d errs) (\<lambda>errs.
     Inr (errs, st))))))))))))))"

definition validate_line :: "schema \<Rightarrow> vstate \<Rightarrow> int \<Rightarrow> string \<Rightarrow> exn + (errors \<times> vstate)" where
  \<comment> \<open>The method returns the dictionary of errors; the state of the object after the call
      is the second component. An exception ends the call without a result.\<close>
  "validate_line sch st line_number line =
     (let flds = py_split (CHR 0x09) (py_strip line)
      in if length flds \<noteq> 9
         then Inr ([(''error'', Msg ''Line must have 9 tab-separated fields'')], st)
         else (case validate_fields sch flds st of
                 (errs, st1) \<Rightarrow>
                   (let attr_dict = parse_attributes (flds ! 8)
                    in reserved_checks attr_dict (check_attributes sch attr_dict errs) st1)))"

subsection \<open>\<open>validate_file\<close>\<close>

datatype report_key = LineNo int | Key string
  \<comment> \<open>A key of the dictionary \<open>validate_file\<close> returns: an \<open>int\<close> or a \<open>str\<close>.\<close>

datatype report_value = Entry errors | Text string
  \<comment> \<open>A value of that dictionary: a dictionary of errors, or one text.\<close>

type_synonym report = "(report_key \<times> report_value) list"

definition init_state :: vstate where
  "init_state = \<lparr>seen_ids = {}, parent_relationships = [], feature_types = {}\<rparr>"

definition dict_update :: "errors \<Rightarrow> errors \<Rightarrow> errors" where
  \<comment> \<open>\<open>d.update(line_errors)\<close>\<close>
  "dict_update line_errors d = fold (\<lambda>kv. AList.update (fst kv) (snd kv)) line_errors d"

definition add_line_errors :: "int \<Rightarrow> errors \<Rightarrow> report \<Rightarrow> exn + report" where
  \<comment> \<open>\<open>errors.setdefault(line_number, {}).update(line_errors)\<close>\<close>
  "add_line_errors line_number line_errors rep =
     (case map_of rep (LineNo line_number) of
        None \<Rightarrow> Inr (AList.update (LineNo line_number) (Entry (dict_update line_errors [])) rep)
      | Some (Entry e) \<Rightarrow>
          Inr (AList.update (LineNo line_number) (Entry (dict_update line_errors e)) rep)
      | Some (Text _) \<Rightarrow> Inl AttributeError)"

fun process_lines ::
  "schema \<Rightarrow> string list \<Rightarrow> report \<Rightarrow> vstate \<Rightarrow> int \<Rightarrow> exn + (report \<times> vstate \<times> int)" where
  \<comment> \<open>The loop over the lines of the file (lines 231 to 237), with the report, the state of
      the object and \<open>line_number\<close>.\<close>
  "process_lines sch [] rep st line_number = Inr (rep, st, line_number)"
| "process_lines sch (line # rest) rep st line_number =
     (if starts_with_hash line then process_lines sch rest rep st line_number
      else and_then (validate_line sch st line_number line) (\<lambda>(line_errors, st1).
           and_then (if line_errors \<noteq> [] then add_line_errors line_number line_errors rep
                     else Inr rep) (\<lambda>rep1.
           process_lines sch rest rep1 st1 (line_number + 1))))"

definition unresolved_child :: "string \<Rightarrow> string \<Rightarrow> report \<Rightarrow> exn + report" where
  \<comment> \<open>\<open>errors.setdefault(child_id, {}).setdefault('parent', []).append(...)\<close>\<close>
  "unresolved_child parent_id child_id rep =
     (case map_of rep (Key child_id) of
        None \<Rightarrow>
          and_then (append_msg ''parent'' (''Parent ID not found: '' @ parent_id) [])
            (\<lambda>e. Inr (AList.update (Key child_id) (Entry e) rep))
      | Some (Entry e0) \<Rightarrow>
          and_then (append_msg ''parent'' (''Parent ID not found: '' @ parent_id) e0)
            (\<lambda>e. Inr (AList.update (Key child_id) (Entry e) rep))
      | Some (Text _) \<Rightarrow> Inl AttributeError)"

definition unresolved_parent ::
  "string set \<Rightarrow> string \<times> string list \<Rightarrow> report \<Rightarrow> exn + report" where
  "unresolved_parent seen item rep =
     (if fst item \<notin> seen then for_each (unresolved_child (fst item)) (snd item) rep
      else Inr rep)"

definition check_unresolved :: "vstate \<Rightarrow> report \<Rightarrow> exn + report" where
  \<comment> \<open>Lines 239 to 243.\<close>
  "check_unresolved st rep =
     for_each (unresolved_parent (seen_ids st)) (parent_relationships st) rep"

definition check_feature_types :: "schema \<Rightarrow> vstate \<Rightarrow> report \<Rightarrow> exn + report" where
  \<comment> \<open>Lines 245 to 248. The missing types are the permissible values that are not in
      \<open>feature_types\<close>, each once; line 248 joins them in the iteration order of the set
      \<open>missing_types\<close>, which is the parameter \<open>missing_types_order\<close>.\<close>
  "check_feature_types sch st rep =
     (case type_permissible_values sch of
        None \<Rightarrow> Inl KeyError
      | Some permissible \<Rightarrow>
          if card (feature_types st) \<noteq> length permissible
          then Inr (AList.update (Key ''feature_type'')
                      (Text (''Missing feature types: '' @
                         py_join '', ''
                           (missing_types_order sch
                              (filter (\<lambda>t. t \<notin> feature_types st) (remdups permissible)))))
                      rep)
          else Inr rep)"

definition validate_file :: "schema \<Rightarrow> string list \<Rightarrow> exn + report" where
  \<comment> \<open>The file is the list of its lines, as the iteration over the file object yields
      them.\<close>
  "validate_file sch lines =
     and_then (process_lines sch lines [] init_state 1) (\<lambda>(rep, st, line_number).
     and_then (check_unresolved st rep) (check_feature_types sch st))"

subsection \<open>Notions used in the statements\<close>

definition conformant_schema :: schema where
  \<comment> \<open>A schema to which every value conforms, with the single permissible type
      \<open>gene\<close>. In the examples below at most one type is missing, so the order of
      iteration plays no part in them.\<close>
  "conformant_schema = \<lparr>has_class = (\<lambda>_. True), class_typeof = (\<lambda>_ _. True),
     has_slot = (\<lambda>_. True), slot_typeof = (\<lambda>_ _. True),
     type_permissible_values = Some [''gene''], missing_types_order = (\<lambda>ts. ts)\<rparr>"

definition gff_line :: "string list \<Rightarrow> string" where
  \<comment> \<open>The text of a line of a file: the fields with tabs between them and the newline.\<close>
  "gff_line flds = py_join [CHR 0x09] flds @ [CHR 0x0A]"

definition line_fields :: "string \<Rightarrow> string list" where
  \<comment> \<open>The list \<open>fields\<close> of \<open>validate_line\<close>.\<close>
  "line_fields line = py_split (CHR 0x09) (py_strip line)"

definition line_attributes :: "string \<Rightarrow> attr_dict" where
  \<comment> \<open>The dictionary \<open>attr_dict\<close> of a line of nine fields.\<close>
  "line_attributes line = parse_attributes (line_fields line ! 8)"

definition messages :: "errors \<Rightarrow> string \<Rightarrow> string list" where
  \<comment> \<open>The texts a dictionary of errors holds under a category.\<close>
  "messages errs category =
     (case map_of errs category of None \<Rightarrow> [] | Some (Msg m) \<Rightarrow> [m] | Some (Msgs ms) \<Rightarrow> ms)"

definition reported :: "exn + errors \<times> vstate \<Rightarrow> string \<Rightarrow> err_value option" where
  \<comment> \<open>What a call of \<open>validate_line\<close> reports under a category: the value of the returned
      dictionary, and nothing when the call raises.\<close>
  "reported result category =
     (case result of Inl e \<Rightarrow> None | Inr r \<Rightarrow> map_of (fst r) category)"

definition list_categories :: "string set" where
  \<comment> \<open>The keys that \<open>validate_line\<close> fills with \<open>setdefault(key, []).append\<close>.\<close>
  "list_categories = {''parent'', ''alias'', ''note'', ''target'', ''derives_from'', ''gap'',
     ''replacement'', ''sequence'', ''variant_seq'', ''amino_acid'', ''codon''}"

inductive appended :: "string set \<Rightarrow> errors \<Rightarrow> errors \<Rightarrow> bool" for K where
  \<comment> \<open>\<open>appended K e e'\<close>: \<open>e'\<close> comes from \<open>e\<close> by appending texts under keys of \<open>K\<close>.\<close>
  appended_refl: "appended K e e"
| appended_step: "appended K e e1 \<Longrightarrow> k \<in> K \<Longrightarrow> append_msg k m e1 = Inr e2 \<Longrightarrow> appended K e e2"

text \<open>
  The attribute map as the specification words it: each segment between semicolons is read
  on its own, and of the segments with one key the last one gives the value.
\<close>

definition segment_key :: "string \<Rightarrow> string" where
  \<comment> \<open>The text before the first \<open>=\<close>, or the whole segment when it has none.\<close>
  "segment_key seg = (if CHR ''='' \<in> set seg then takeWhile (\<lambda>c. c \<noteq> CHR ''='') seg else seg)"

definition segment_value :: "string \<Rightarrow> attr_value" where
  \<comment> \<open>The text after the first \<open>=\<close>, or the flag when the segment has none.\<close>
  "segment_value seg =
     (if CHR ''='' \<in> set seg then Str (drop (Suc (length (segment_key seg))) seg) else Flag)"

definition attribute_map_spec :: "string \<Rightarrow> string \<Rightarrow> attr_value option" where
  "attribute_map_spec raw key =
     (case filter (\<lambda>seg. segment_key seg = key) (py_split (CHR '';'') raw) of
        [] \<Rightarrow> None
      | seg # segs \<Rightarrow> Some (segment_value (last (seg # segs))))"

definition noncomment :: "string list \<Rightarrow> string list" where
  \<comment> \<open>The lines that the loop of \<open>validate_file\<close> does not skip.\<close>
  "noncomment ls = filter (\<lambda>l. \<not> starts_with_hash l) ls"




definition value_shape :: "report_key \<Rightarrow> string \<Rightarrow> err_value \<Rightarrow> bool" where
  \<comment> \<open>Which categories hold a list of texts and which a single text: under a line number
      the eleven categories of \<open>list_categories\<close> hold lists and every other category holds
      one text; under a child ID the category \<open>parent\<close> holds a list.\<close>
  "value_shape key category v =
     (case v of
        Msgs ms \<Rightarrow> (case key of LineNo n \<Rightarrow> category \<in> list_categories
                              | Key c \<Rightarrow> category = ''parent'')
      | Msg m \<Rightarrow> (case key of LineNo n \<Rightarrow> category \<notin> list_categories | Key c \<Rightarrow> False))"

definition entry_shape :: "report_key \<Rightarrow> report_value \<Rightarrow> bool" where
  \<comment> \<open>An entry of the report: a single text only under the key \<open>feature_type\<close>, and
      otherwise a dictionary whose values have the shape above.\<close>
  "entry_shape key v =
     (case v of
        Text t \<Rightarrow> key = Key ''feature_type''
      | Entry e \<Rightarrow> list_all (\<lambda>cv. value_shape key (fst cv) (snd cv)) e)"

definition bare_only :: "errors \<Rightarrow> bool" where
  \<comment> \<open>Every value is a single text.\<close>
  "bare_only e \<longleftrightarrow> (\<forall>k v. map_of e k = Some v \<longrightarrow> (\<exists>m. v = Msg m))"

definition entry_ok :: "report_key \<Rightarrow> report_value \<Rightarrow> bool" where
  \<comment> \<open>The invariant behind \<open>entry_shape\<close>: the keys are distinct and each value that a
      lookup finds has the shape.\<close>
  "entry_ok key v =
     (case v of
        Text t \<Rightarrow> key = Key ''feature_type''
      | Entry e \<Rightarrow> distinct (map fst e) \<and>
                   (\<forall>c x. map_of e c = Some x \<longrightarrow> value_shape key c x))"

definition report_ok :: "report \<Rightarrow> bool" where
  "report_ok rep \<longleftrightarrow> (\<forall>key v. map_of rep key = Some v \<longrightarrow> entry_ok key v)"

section \<open>Properties\<close>

subsection \<open>Lines that carry a Parent attribute\<close>

text \<open>
  C1. The claim: for every 9-field line with well-formed attributes and conformant field
  values, also one that carries both ID and Parent with the parent already registered,
  \<open>validate_line\<close> returns an empty dictionary. The code records the edge from the parent to
  the ID of the line (line 120) before it looks for that ID among the children of the
  parent (line 126), so the search always succeeds: such a line gets a circular-reference
  error. Here \<open>gene1\<close> is registered and the line declares \<open>ID=mrna1;Parent=gene1\<close>.
\<close>

theorem validate_line_id_parent_reports_circular:
  "validate_line conformant_schema
     \<lparr>seen_ids = {''gene1''}, parent_relationships = [], feature_types = {''gene''}\<rparr> 2
     (gff_line [''chr1'', ''src'', ''gene'', ''1'', ''10'', ''.'', ''+'', ''.'',
                ''ID=mrna1;Parent=gene1'']) =
   Inr ([(''parent'', Msgs [''Circular reference detected for ID: mrna1''])],
        \<lparr>seen_ids = {''mrna1'', ''gene1''}, parent_relationships = [(''gene1'', [''mrna1''])],
         feature_types = {''gene''}\<rparr>)"
  by code_simp

text \<open>
  C2. The claim: \<open>validate_line\<close> never raises, also not on a line whose attributes hold
  Parent and no ID. On such a line the local variable \<open>id_value\<close> is unbound when line 120
  reads it, and the call ends with \<open>UnboundLocalError\<close>.
\<close>

theorem validate_line_parent_without_id_raises:
  "validate_line conformant_schema init_state 1
     (gff_line [''chr1'', ''src'', ''gene'', ''1'', ''10'', ''.'', ''+'', ''.'', ''Parent=gene1'']) =
   Inl UnboundLocalError"
  by code_simp

text \<open>
  C4. The claim: every reference \<open>Parent=X\<close> to an ID that no line declares gives an
  unresolved-Parent finding in the report of \<open>validate_file\<close>. When the referring line has
  no ID of its own, the exception of C2 leaves \<open>validate_file\<close> and there is no report.
\<close>

theorem validate_file_parent_without_id_raises:
  "validate_file conformant_schema
     [gff_line [''chr1'', ''src'', ''gene'', ''1'', ''10'', ''.'', ''+'', ''.'', ''Parent=geneX'']] =
   Inl UnboundLocalError"
  by code_simp

subsection \<open>Duplicate IDs\<close>

text \<open>
  C5. The claim: when two lines declare the same ID, the second one gets a duplicate-ID
  error and the first one does not. Both checks on the ID write the key \<open>id\<close>, and the
  character check comes second: for an ID with a character outside the pattern its text
  replaces the duplicate-ID text. Here both lines declare \<open>ID=gene#1\<close>.
\<close>

theorem validate_file_duplicate_invalid_id:
  "validate_file conformant_schema
     [gff_line [''chr1'', ''src'', ''gene'', ''1'', ''10'', ''.'', ''+'', ''.'', ''ID=gene#1''],
      gff_line [''chr1'', ''src'', ''gene'', ''20'', ''30'', ''.'', ''+'', ''.'', ''ID=gene#1'']] =
   Inr [(LineNo 1, Entry [(''id'', Msg ''Invalid characters in ID: gene#1'')]),
        (LineNo 2, Entry [(''id'', Msg ''Invalid characters in ID: gene#1'')])]"
  by code_simp

text \<open>For an ID inside the pattern the second line does get the duplicate-ID error.\<close>

lemma validate_file_duplicate_valid_id:
  "validate_file conformant_schema
     [gff_line [''chr1'', ''src'', ''gene'', ''1'', ''10'', ''.'', ''+'', ''.'', ''ID=gene1''],
      gff_line [''chr1'', ''src'', ''gene'', ''20'', ''30'', ''.'', ''+'', ''.'', ''ID=gene1'']] =
   Inr [(LineNo 2, Entry [(''id'', Msg ''Duplicate ID: gene1'')])]"
  by code_simp

subsection \<open>Auxiliary facts about the error dictionary\<close>

lemma and_then_Inr: "and_then m f = Inr y \<longleftrightarrow> (\<exists>x. m = Inr x \<and> f x = Inr y)"
  by (cases m) (simp_all add: and_then_def)

lemma for_each_rel:
  assumes "for_each body xs s = Inr s'"
    and "R s"
    and "\<And>x a b. x \<in> set xs \<Longrightarrow> body x a = Inr b \<Longrightarrow> R a \<Longrightarrow> R b"
  shows "R s'"
  using assms
proof (induction xs arbitrary: s)
  case Nil
  then show ?case by simp
next
  case (Cons x xs)
  from Cons.prems(1) obtain s1 where b: "body x s = Inr s1" and r: "for_each body xs s1 = Inr s'"
    by (auto simp: and_then_Inr)
  have "R s1" using Cons.prems(3)[OF _ b Cons.prems(2)] by simp
  then show ?case
    by (rule Cons.IH[OF r]) (rule Cons.prems(3), simp_all)
qed

lemma append_msg_Inr:
  "append_msg k m e = Inr e' \<Longrightarrow>
     \<exists>ms. e' = AList.update k (Msgs (ms @ [m])) e \<and>
       (map_of e k = None \<and> ms = [] \<or> map_of e k = Some (Msgs ms))"
  by (auto simp: append_msg_def split: option.splits err_value.splits)

lemma append_msg_other: "append_msg k m e = Inr e' \<Longrightarrow> k' \<noteq> k \<Longrightarrow> map_of e' k' = map_of e k'"
  by (auto dest!: append_msg_Inr simp: update_conv')

lemma append_msg_messages:
  "append_msg k m e = Inr e' \<Longrightarrow> messages e' k' = (if k' = k then messages e k @ [m] else messages e k')"
  by (auto dest!: append_msg_Inr simp: update_conv' messages_def)

lemma append_msg_Msg:
  "append_msg k m e = Inr e' \<Longrightarrow> map_of e' k' = Some (Msg t) \<longleftrightarrow> map_of e k' = Some (Msg t)"
  by (auto dest!: append_msg_Inr simp: update_conv' split: if_splits)

lemma append_msg_distinct:
  "append_msg k m e = Inr e' \<Longrightarrow> distinct (map fst e) \<Longrightarrow> distinct (map fst e')"
  by (auto dest!: append_msg_Inr simp: distinct_update)

lemma appended_trans:
  assumes "appended K a b" and "appended K b c"
  shows "appended K a c"
  using assms(2,1) by (induction rule: appended.induct) (auto intro: appended_step)

lemma appended_mono: "appended K a b \<Longrightarrow> K \<subseteq> K' \<Longrightarrow> appended K' a b"
  by (induction rule: appended.induct) (auto intro: appended.intros)

lemma appended_one: "append_msg k m e = Inr e' \<Longrightarrow> appended {k} e e'"
  by (rule appended_step[OF appended_refl]) auto

lemma appended_other: "appended K e e' \<Longrightarrow> k \<notin> K \<Longrightarrow> map_of e' k = map_of e k"
proof (induction rule: appended.induct)
  case appended_refl
  then show ?case by simp
next
  case (appended_step e e1 k0 m e2)
  then have "k \<noteq> k0" by auto
  with appended_step show ?case by (simp add: append_msg_other)
qed

lemma appended_Msg: "appended K e e' \<Longrightarrow> map_of e' k = Some (Msg t) \<longleftrightarrow> map_of e k = Some (Msg t)"
  by (induction rule: appended.induct) (auto simp: append_msg_Msg)

lemma appended_messages: "appended K e e' \<Longrightarrow> m \<in> set (messages e k) \<Longrightarrow> m \<in> set (messages e' k)"
  by (induction rule: appended.induct) (auto simp: append_msg_messages)

lemma appended_distinct: "appended K e e' \<Longrightarrow> distinct (map fst e) \<Longrightarrow> distinct (map fst e')"
  by (induction rule: appended.induct) (auto simp: append_msg_distinct)

lemma for_each_appended:
  assumes "for_each body xs e = Inr e'"
    and "\<And>x a b. x \<in> set xs \<Longrightarrow> body x a = Inr b \<Longrightarrow> appended K a b"
  shows "appended K e e'"
  by (rule for_each_rel[OF assms(1), where R = "appended K e"])
     (auto intro: appended_refl appended_trans assms(2))


lemma parent_step_Inr:
  assumes "parent_step idv p (a, s) = Inr (b, t)"
  shows "appended {''parent''} a b \<and> seen_ids t = seen_ids s \<and> feature_types t = feature_types s"
  using assms
  by (auto simp: parent_step_def and_then_Inr split: if_splits option.splits
           intro: appended_refl appended_one)

lemma check_parent_Inr:
  assumes "check_parent d idv (e, st) = Inr (e', st')"
  shows "appended {''parent''} e e' \<and> seen_ids st' = seen_ids st \<and> feature_types st' = feature_types st"
proof (cases "map_of d ''Parent''")
  case None
  with assms show ?thesis by (auto simp: check_parent_def intro: appended_refl)
next
  case (Some v)
  show ?thesis
  proof (cases v)
    case Flag
    with Some assms show ?thesis by (simp add: check_parent_def)
  next
    case (Str ps)
    with Some assms have fe: "for_each (parent_step idv) (py_split (CHR '','') ps) (e, st) = Inr (e', st')"
      by (simp add: check_parent_def)
    let ?R = "\<lambda>x. appended {''parent''} e (fst x) \<and> seen_ids (snd x) = seen_ids st
                  \<and> feature_types (snd x) = feature_types st"
    have "?R (e', st')"
    proof (rule for_each_rel[OF fe, where R = ?R])
      show "?R (e, st)" by (simp add: appended_refl)
    next
      fix x a b
      assume "parent_step idv x a = Inr b" and "?R a"
      then show "?R b"
        using parent_step_Inr[of idv x "fst a" "snd a" "fst b" "snd b"]
        by (auto intro: appended_trans)
    qed
    then show ?thesis by simp
  qed
qed

lemma check_circular_Inr: "check_circular d idv st e = Inr e' \<Longrightarrow> appended {''parent''} e e'"
  unfolding check_circular_def
  by (auto split: option.splits attr_value.splits if_splits simp: circular_step_def
           elim!: for_each_appended intro: appended_refl appended_one)

lemma check_alias_Inr: "check_alias d e = Inr e' \<Longrightarrow> appended {''alias''} e e'"
  unfolding check_alias_def
  by (auto split: option.splits attr_value.splits if_splits
           elim!: for_each_appended intro: appended_refl appended_one)

lemma check_note_Inr: "check_note d e = Inr e' \<Longrightarrow> appended {''note''} e e'"
  unfolding check_note_def
  by (auto split: option.splits attr_value.splits if_splits
           elim!: for_each_appended intro: appended_refl appended_one)

lemma check_target_positions_Inr:
  "check_target_positions a b e = Inr e' \<Longrightarrow> appended {''target''} e e'"
  unfolding check_target_positions_def
  by (auto split: option.splits if_splits simp: and_then_Inr Let_def
           intro: appended_refl appended_one appended_trans)

lemma check_target_Inr: "check_target d st e = Inr e' \<Longrightarrow> appended {''target''} e e'"
  unfolding check_target_def
  by (auto split: option.splits attr_value.splits if_splits list.splits simp: and_then_Inr
           dest!: check_target_positions_Inr
           intro: appended_refl appended_one appended_trans)

lemma check_derives_from_Inr:
  "check_derives_from d st e = Inr e' \<Longrightarrow> appended {''derives_from''} e e'"
  unfolding check_derives_from_def
  by (auto split: option.splits attr_value.splits if_splits
           elim!: for_each_appended intro: appended_refl appended_one)

lemma check_gap_Inr: "check_gap d e = Inr e' \<Longrightarrow> appended {''gap''} e e'"
  unfolding check_gap_def
  by (auto split: option.splits attr_value.splits if_splits simp: Let_def
           intro: appended_refl appended_one)

lemma check_replacement_Inr: "check_replacement d e = Inr e' \<Longrightarrow> appended {''replacement''} e e'"
  unfolding check_replacement_def
  by (auto split: option.splits attr_value.splits if_splits intro: appended_refl appended_one)

lemma check_sequence_Inr: "check_sequence d e = Inr e' \<Longrightarrow> appended {''sequence''} e e'"
  unfolding check_sequence_def
  by (auto split: option.splits attr_value.splits if_splits intro: appended_refl appended_one)

lemma check_variant_seq_Inr: "check_variant_seq d e = Inr e' \<Longrightarrow> appended {''variant_seq''} e e'"
  unfolding check_variant_seq_def
  by (auto split: option.splits attr_value.splits if_splits intro: appended_refl appended_one)

lemma check_amino_acid_Inr: "check_amino_acid d e = Inr e' \<Longrightarrow> appended {''amino_acid''} e e'"
  unfolding check_amino_acid_def
  by (auto split: option.splits attr_value.splits if_splits intro: appended_refl appended_one)

lemma check_codon_Inr: "check_codon d e = Inr e' \<Longrightarrow> appended {''codon''} e e'"
  unfolding check_codon_def
  by (auto split: option.splits attr_value.splits if_splits intro: appended_refl appended_one)


lemma reserved_checks_Inr:
  assumes "reserved_checks d e st = Inr (e', st')"
  shows "\<exists>e1 st1 idv e2 e3 e4 e5.
     check_id d e st = Inr (e1, st1, idv) \<and>
     check_parent d idv (e1, st1) = Inr (e2, st') \<and>
     check_circular d idv st' e2 = Inr e3 \<and>
     appended {''alias'', ''note'', ''target'', ''derives_from''} e3 e4 \<and>
     check_gap d e4 = Inr e5 \<and>
     appended {''replacement'', ''sequence'', ''variant_seq'', ''amino_acid'', ''codon''} e5 e'"
proof -
  from assms obtain e1 st1 idv e2 e3 a1 a2 a3 e4 e5 b1 b2 b3 b4 where
    1: "check_id d e st = Inr (e1, st1, idv)" and
    2: "check_parent d idv (e1, st1) = Inr (e2, st')" and
    3: "check_circular d idv st' e2 = Inr e3" and
    4: "check_alias d e3 = Inr a1" and
    5: "check_note d a1 = Inr a2" and
    6: "check_target d st' a2 = Inr a3" and
    7: "check_derives_from d st' a3 = Inr e4" and
    8: "check_gap d e4 = Inr e5" and
    9: "check_replacement d e5 = Inr b1" and
    10: "check_sequence d b1 = Inr b2" and
    11: "check_variant_seq d b2 = Inr b3" and
    12: "check_amino_acid d b3 = Inr b4" and
    13: "check_codon d b4 = Inr e'"
    unfolding reserved_checks_def by (auto simp: and_then_Inr)
  let ?A = "{''alias'', ''note'', ''target'', ''derives_from''}"
  let ?B = "{''replacement'', ''sequence'', ''variant_seq'', ''amino_acid'', ''codon''}"
  have "appended ?A e3 a1" by (rule appended_mono[OF check_alias_Inr[OF 4]]) simp
  moreover have "appended ?A a1 a2" by (rule appended_mono[OF check_note_Inr[OF 5]]) simp
  moreover have "appended ?A a2 a3" by (rule appended_mono[OF check_target_Inr[OF 6]]) simp
  moreover have "appended ?A a3 e4" by (rule appended_mono[OF check_derives_from_Inr[OF 7]]) simp
  ultimately have A: "appended ?A e3 e4" by (blast intro: appended_trans)
  have "appended ?B e5 b1" by (rule appended_mono[OF check_replacement_Inr[OF 9]]) simp
  moreover have "appended ?B b1 b2" by (rule appended_mono[OF check_sequence_Inr[OF 10]]) simp
  moreover have "appended ?B b2 b3" by (rule appended_mono[OF check_variant_seq_Inr[OF 11]]) simp
  moreover have "appended ?B b3 b4" by (rule appended_mono[OF check_amino_acid_Inr[OF 12]]) simp
  moreover have "appended ?B b4 e'" by (rule appended_mono[OF check_codon_Inr[OF 13]]) simp
  ultimately have B: "appended ?B e5 e'" by (blast intro: appended_trans)
  from 1 2 3 A 8 B show ?thesis by blast
qed

lemma reserved_checks_appended:
  assumes "reserved_checks d e st = Inr (e', st')"
  shows "\<exists>e1 st1 idv. check_id d e st = Inr (e1, st1, idv) \<and> appended list_categories e1 e' \<and>
           seen_ids st' = seen_ids st1 \<and> feature_types st' = feature_types st1"
proof -
  from reserved_checks_Inr[OF assms] obtain e1 st1 idv e2 e3 e4 e5 where
    1: "check_id d e st = Inr (e1, st1, idv)" and
    2: "check_parent d idv (e1, st1) = Inr (e2, st')" and
    3: "check_circular d idv st' e2 = Inr e3" and
    4: "appended {''alias'', ''note'', ''target'', ''derives_from''} e3 e4" and
    5: "check_gap d e4 = Inr e5" and
    6: "appended {''replacement'', ''sequence'', ''variant_seq'', ''amino_acid'', ''codon''} e5 e'"
    by blast
  note P = check_parent_Inr[OF 2]
  have "appended list_categories e1 e2"
    by (rule appended_mono[of "{''parent''}"]) (use P in \<open>simp_all add: list_categories_def\<close>)
  moreover have "appended list_categories e2 e3"
    by (rule appended_mono[OF check_circular_Inr[OF 3]]) (simp add: list_categories_def)
  moreover have "appended list_categories e3 e4"
    by (rule appended_mono[OF 4]) (simp add: list_categories_def)
  moreover have "appended list_categories e4 e5"
    by (rule appended_mono[OF check_gap_Inr[OF 5]]) (simp add: list_categories_def)
  moreover have "appended list_categories e5 e'"
    by (rule appended_mono[OF 6]) (simp add: list_categories_def)
  ultimately have "appended list_categories e1 e'" by (blast intro: appended_trans)
  with 1 P show ?thesis by blast
qed

subsection \<open>The fields and the attributes of a line\<close>

lemma check_attribute_map_of:
  "map_of (check_attribute sch kv e) k = Some v \<Longrightarrow>
     map_of e k = Some v \<or> (\<exists>key m. k = ''attribute.'' @ key \<and> v = Msg m)"
  by (cases kv) (auto simp: check_attribute_def update_conv' split: if_splits)

lemma check_attributes_map_of:
  "map_of (check_attributes sch d e) k = Some v \<Longrightarrow>
     map_of e k = Some v \<or> (\<exists>key m. k = ''attribute.'' @ key \<and> v = Msg m)"
  unfolding check_attributes_def
proof (induction d arbitrary: e)
  case Nil
  then show ?case by simp
next
  case (Cons kv d)
  from Cons.IH[of "check_attribute sch kv e"] Cons.prems
  show ?case by (auto dest: check_attribute_map_of)
qed

lemma check_attribute_other:
  "\<not> (\<exists>key. k = ''attribute.'' @ key) \<Longrightarrow> map_of (check_attribute sch kv e) k = map_of e k"
  by (cases kv) (auto simp: check_attribute_def update_conv')

lemma check_attributes_other:
  "\<not> (\<exists>key. k = ''attribute.'' @ key) \<Longrightarrow> map_of (check_attributes sch d e) k = map_of e k"
  unfolding check_attributes_def
  by (induction d arbitrary: e) (simp_all add: check_attribute_other)

lemma check_id_map_of:
  "check_id d e st = Inr (e1, st1, idv) \<Longrightarrow> k \<noteq> ''id'' \<Longrightarrow> map_of e1 k = map_of e k"
  by (auto simp: check_id_def update_conv' Let_def split: option.splits attr_value.splits if_splits)


lemma check_seqid_other: "k \<noteq> ''seqid'' \<Longrightarrow> map_of (check_seqid sch x e) k = map_of e k"
  by (simp add: check_seqid_def update_conv')

lemma check_source_other: "k \<noteq> ''source'' \<Longrightarrow> map_of (check_source sch x e) k = map_of e k"
  by (simp add: check_source_def update_conv')

lemma check_type_other: "k \<noteq> ''type'' \<Longrightarrow> map_of (fst (check_type sch x es)) k = map_of (fst es) k"
  by (simp add: check_type_def update_conv')

lemma check_score_other: "k \<noteq> ''score'' \<Longrightarrow> map_of (check_score sch x e) k = map_of e k"
  by (simp add: check_score_def update_conv')

lemma check_strand_other: "k \<noteq> ''strand'' \<Longrightarrow> map_of (check_strand x e) k = map_of e k"
  by (simp add: check_strand_def update_conv')

lemma check_phase_other: "k \<noteq> ''phase'' \<Longrightarrow> map_of (check_phase sch x e) k = map_of e k"
  by (simp add: check_phase_def update_conv')

lemma check_positions_other:
  "k \<noteq> ''start'' \<Longrightarrow> k \<noteq> ''end'' \<Longrightarrow> map_of (check_positions a b e) k = map_of e k"
  by (simp add: check_positions_def update_conv' Let_def split: option.splits)

lemma validate_fields_unfold:
  "fst (validate_fields sch flds st) =
     check_phase sch (flds ! 7) (check_strand (flds ! 6) (check_score sch (flds ! 5)
       (check_positions (flds ! 3) (flds ! 4)
          (fst (check_type sch (flds ! 2)
             (check_source sch (flds ! 1) (check_seqid sch (flds ! 0) []), st))))))"
  by (simp add: validate_fields_def Let_def split_beta)

lemma validate_fields_state:
  "snd (validate_fields sch flds st) =
     snd (check_type sch (flds ! 2) (check_source sch (flds ! 1) (check_seqid sch (flds ! 0) []), st))"
  by (simp add: validate_fields_def Let_def split_beta)

lemma check_positions_start:
  "map_of (check_positions a b e) ''start'' =
     (case py_int a of
        None \<Rightarrow> Some (Msg (''Invalid start position: '' @ a))
      | Some x \<Rightarrow>
          (case py_int b of
             None \<Rightarrow> Some (Msg (''Invalid start position: '' @ a))
           | Some y \<Rightarrow> if x < 1 then Some (Msg (''Start position must be >= 1: '' @ a))
                       else map_of e ''start''))"
  by (simp add: check_positions_def update_conv' Let_def split: option.splits)

lemma check_positions_end:
  "map_of (check_positions a b e) ''end'' =
     (case py_int a of
        None \<Rightarrow> Some (Msg (''Invalid end position: '' @ b))
      | Some x \<Rightarrow>
          (case py_int b of
             None \<Rightarrow> Some (Msg (''Invalid end position: '' @ b))
           | Some y \<Rightarrow> if y < x then Some (Msg (''End position must be >= start position: '' @ b))
                       else map_of e ''end''))"
  by (simp add: check_positions_def update_conv' Let_def split: option.splits)

lemma validate_fields_start:
  "map_of (fst (validate_fields sch flds st)) ''start'' =
     map_of (check_positions (flds ! 3) (flds ! 4) []) ''start''"
  by (simp add: validate_fields_unfold check_phase_other check_strand_other check_score_other
        check_positions_start check_type_other check_source_other check_seqid_other
      split: option.splits)

lemma validate_fields_end:
  "map_of (fst (validate_fields sch flds st)) ''end'' =
     map_of (check_positions (flds ! 3) (flds ! 4) []) ''end''"
  by (simp add: validate_fields_unfold check_phase_other check_strand_other check_score_other
        check_positions_end check_type_other check_source_other check_seqid_other
      split: option.splits)


lemma validate_line_short:
  "length (line_fields line) \<noteq> 9 \<Longrightarrow>
   validate_line sch st n line =
     Inr ([(''error'', Msg ''Line must have 9 tab-separated fields'')], st)"
  by (simp add: validate_line_def line_fields_def)

lemma validate_line_Inr:
  assumes "validate_line sch st n line = Inr (errs, st')"
    and "length (line_fields line) = 9"
  shows "\<exists>e1 st1 idv.
     check_id (line_attributes line)
       (check_attributes sch (line_attributes line) (fst (validate_fields sch (line_fields line) st)))
       (snd (validate_fields sch (line_fields line) st)) = Inr (e1, st1, idv) \<and>
     appended list_categories e1 errs \<and>
     seen_ids st' = seen_ids st1 \<and> feature_types st' = feature_types st1"
proof -
  have "reserved_checks (line_attributes line)
       (check_attributes sch (line_attributes line) (fst (validate_fields sch (line_fields line) st)))
       (snd (validate_fields sch (line_fields line) st)) = Inr (errs, st')"
    using assms by (simp add: validate_line_def Let_def split_beta line_fields_def line_attributes_def)
  from reserved_checks_appended[OF this] show ?thesis .
qed

lemma validate_line_other:
  assumes "validate_line sch st n line = Inr (errs, st')"
    and "length (line_fields line) = 9"
    and "k \<noteq> ''id''" and "k \<notin> list_categories" and "\<not> (\<exists>key. k = ''attribute.'' @ key)"
  shows "map_of errs k = map_of (fst (validate_fields sch (line_fields line) st)) k"
proof -
  from validate_line_Inr[OF assms(1,2)] obtain e1 st1 idv where
    i: "check_id (line_attributes line)
       (check_attributes sch (line_attributes line) (fst (validate_fields sch (line_fields line) st)))
       (snd (validate_fields sch (line_fields line) st)) = Inr (e1, st1, idv)" and
    a: "appended list_categories e1 errs"
    by blast
  have "map_of errs k = map_of e1 k" by (rule appended_other[OF a assms(4)])
  also have "\<dots> = map_of (check_attributes sch (line_attributes line)
       (fst (validate_fields sch (line_fields line) st))) k"
    by (rule check_id_map_of[OF i assms(3)])
  also have "\<dots> = map_of (fst (validate_fields sch (line_fields line) st)) k"
    by (rule check_attributes_other[OF assms(5)])
  finally show ?thesis .
qed

text \<open>
  When \<open>validate_line\<close> returns on a line of nine fields, the keys \<open>start\<close> and \<open>end\<close> hold
  what lines 62 to 71 put there: both errors when \<open>start\<close> or \<open>end\<close> is not an integer, and
  otherwise the start error for \<open>start < 1\<close> and the end error for \<open>end < start\<close>. The
  example is a line with \<open>start = 0\<close> and \<open>end = -1\<close>, where both errors occur.
\<close>

lemma validate_line_start_end_returned:
  assumes "validate_line sch st n line = Inr (errs, st')"
    and "line_fields line = [seqid, source, type, start, end, score, strand, phase, attributes]"
  shows "(py_int start = None \<or> py_int end = None \<longrightarrow>
            map_of errs ''start'' = Some (Msg (''Invalid start position: '' @ start)) \<and>
            map_of errs ''end'' = Some (Msg (''Invalid end position: '' @ end))) \<and>
         (\<forall>a b. py_int start = Some a \<and> py_int end = Some b \<longrightarrow>
            map_of errs ''start'' =
              (if a < 1 then Some (Msg (''Start position must be >= 1: '' @ start)) else None) \<and>
            map_of errs ''end'' =
              (if b < a then Some (Msg (''End position must be >= start position: '' @ end))
               else None))"
proof -
  have len: "length (line_fields line) = 9" by (simp add: assms(2))
  have "map_of errs ''start'' = map_of (fst (validate_fields sch (line_fields line) st)) ''start''"
    by (rule validate_line_other[OF assms(1) len]) (simp_all add: list_categories_def)
  then have s: "map_of errs ''start'' = map_of (check_positions start end []) ''start''"
    by (simp add: validate_fields_start assms(2))
  have "map_of errs ''end'' = map_of (fst (validate_fields sch (line_fields line) st)) ''end''"
    by (rule validate_line_other[OF assms(1) len]) (simp_all add: list_categories_def)
  then have e: "map_of errs ''end'' = map_of (check_positions start end []) ''end''"
    by (simp add: validate_fields_end assms(2))
  show ?thesis
    unfolding s e check_positions_start check_positions_end
    by (auto split: option.splits)
qed

lemma validate_line_start_end_example:
  "validate_line conformant_schema init_state 1
     (gff_line [''chr1'', ''src'', ''gene'', ''0'', ''-1'', ''.'', ''+'', ''.'', ''ID=gene1'']) =
     Inr ([(''start'', Msg ''Start position must be >= 1: 0''),
           (''end'', Msg ''End position must be >= start position: -1'')],
          \<lparr>seen_ids = {''gene1''}, parent_relationships = [], feature_types = {''gene''}\<rparr>) \<and>
   py_int ''0'' = Some 0 \<and> py_int ''-1'' = Some (- 1) \<and>
   map_of [(''start'', Msg ''Start position must be >= 1: 0''),
           (''end'', Msg ''End position must be >= start position: -1'')] ''start'' =
     Some (Msg ''Start position must be >= 1: 0'') \<and>
   map_of [(''start'', Msg ''Start position must be >= 1: 0''),
           (''end'', Msg ''End position must be >= start position: -1'')] ''end'' =
     Some (Msg ''End position must be >= start position: -1'')"
proof -
  let ?line = "gff_line [''chr1'', ''src'', ''gene'', ''0'', ''-1'', ''.'', ''+'', ''.'', ''ID=gene1'']"
  let ?errs = "[(''start'', Msg ''Start position must be >= 1: 0''),
                (''end'', Msg ''End position must be >= start position: -1'')]"
  have run: "validate_line conformant_schema init_state 1 ?line =
     Inr (?errs, \<lparr>seen_ids = {''gene1''}, parent_relationships = [], feature_types = {''gene''}\<rparr>)"
    by code_simp
  have flds: "line_fields ?line =
     [''chr1'', ''src'', ''gene'', ''0'', ''-1'', ''.'', ''+'', ''.'', ''ID=gene1'']"
    by code_simp
  have a: "py_int ''0'' = Some 0" by code_simp
  have b: "py_int ''-1'' = Some (- 1)" by code_simp
  from validate_line_start_end_returned[OF run flds] a b run show ?thesis by simp
qed

text \<open>
  C6. The claim: on a line of nine fields, when \<open>start\<close> or \<open>end\<close> is not an integer,
  \<open>validate_line\<close> reports both a start error and an end error, and when both are integers
  it reports the start error for \<open>start < 1\<close> and the end error for \<open>end < start\<close>. Lines 70
  and 71 do put both errors into the local dictionary, but on a line with a Parent
  attribute and no ID the call then raises at line 120 and reports nothing. Here \<open>start\<close>
  is \<open>x\<close> and the attributes are \<open>Parent=mrna1\<close>.
\<close>

theorem validate_line_invalid_start_raises:
  "validate_line conformant_schema init_state 1
     (gff_line [''chr1'', ''src'', ''gene'', ''x'', ''10'', ''.'', ''+'', ''.'', ''Parent=mrna1'']) =
   Inl UnboundLocalError"
  by code_simp


lemma validate_line_reserved:
  assumes "validate_line sch st n line = Inr (errs, st')"
    and "length (line_fields line) = 9"
  shows "reserved_checks (line_attributes line)
       (check_attributes sch (line_attributes line) (fst (validate_fields sch (line_fields line) st)))
       (snd (validate_fields sch (line_fields line) st)) = Inr (errs, st')"
  using assms by (simp add: validate_line_def Let_def split_beta line_fields_def line_attributes_def)

lemma validate_fields_no_list_category:
  "k \<in> list_categories \<Longrightarrow> map_of (fst (validate_fields sch flds st)) k = None"
  by (auto simp: list_categories_def validate_fields_unfold check_phase_other check_strand_other
        check_score_other check_positions_other check_type_other check_source_other
        check_seqid_other)

lemma list_category_not_attribute: "k \<in> list_categories \<Longrightarrow> \<not> (\<exists>key. k = ''attribute.'' @ key)"
  by (auto simp: list_categories_def)

lemma list_category_not_id: "k \<in> list_categories \<Longrightarrow> k \<noteq> ''id''"
  by (auto simp: list_categories_def)

lemma before_reserved_no_list_category:
  assumes "check_id d (check_attributes sch d (fst (validate_fields sch flds st))) st0 =
             Inr (e1, st1, idv)"
    and "k \<in> list_categories"
  shows "map_of e1 k = None"
  using check_id_map_of[OF assms(1) list_category_not_id[OF assms(2)]]
  by (simp add: check_attributes_other[OF list_category_not_attribute[OF assms(2)]]
        validate_fields_no_list_category[OF assms(2)])

text \<open>
  When \<open>validate_line\<close> returns on a line with a Gap attribute, the key \<open>gap\<close> is absent for
  a value of at least two tokens whose first token is a non-negative integer, and holds
  the error \<open>Invalid Gap attribute\<close> for a value of fewer than two tokens.
\<close>

lemma validate_line_gap_returned:
  assumes "validate_line sch st n line = Inr (errs, st')"
    and "length (line_fields line) = 9"
    and "map_of (line_attributes line) ''Gap'' = Some (Str gap)"
  shows "(2 \<le> length (py_split_ws gap) \<and> (\<exists>l. py_int (py_split_ws gap ! 0) = Some l \<and> 0 \<le> l)
            \<longrightarrow> map_of errs ''gap'' = None) \<and>
         (length (py_split_ws gap) < 2
            \<longrightarrow> map_of errs ''gap'' = Some (Msgs [''Invalid Gap attribute: '' @ gap]))"
proof -
  let ?d = "line_attributes line"
  from reserved_checks_Inr[OF validate_line_reserved[OF assms(1,2)]]
  obtain e1 st1 idv e2 e3 e4 e5 where
    1: "check_id ?d (check_attributes sch ?d (fst (validate_fields sch (line_fields line) st)))
          (snd (validate_fields sch (line_fields line) st)) = Inr (e1, st1, idv)" and
    2: "check_parent ?d idv (e1, st1) = Inr (e2, st')" and
    3: "check_circular ?d idv st' e2 = Inr e3" and
    4: "appended {''alias'', ''note'', ''target'', ''derives_from''} e3 e4" and
    5: "check_gap ?d e4 = Inr e5" and
    6: "appended {''replacement'', ''sequence'', ''variant_seq'', ''amino_acid'', ''codon''} e5 errs"
    by blast
  have "map_of e1 ''gap'' = None"
    by (rule before_reserved_no_list_category[OF 1]) (simp add: list_categories_def)
  moreover have "map_of e2 ''gap'' = map_of e1 ''gap''"
    using check_parent_Inr[OF 2] by (auto intro: appended_other)
  moreover have "map_of e3 ''gap'' = map_of e2 ''gap''"
    by (rule appended_other[OF check_circular_Inr[OF 3]]) simp
  moreover have "map_of e4 ''gap'' = map_of e3 ''gap''"
    by (rule appended_other[OF 4]) simp
  ultimately have before: "map_of e4 ''gap'' = None" by simp
  have after: "map_of errs ''gap'' = map_of e5 ''gap''"
    by (rule appended_other[OF 6]) simp
  show ?thesis
  proof (intro conjI impI)
    assume "2 \<le> length (py_split_ws gap) \<and> (\<exists>l. py_int (py_split_ws gap ! 0) = Some l \<and> 0 \<le> l)"
    with 5 assms(3) have "e5 = e4" by (auto simp: check_gap_def Let_def)
    with before after show "map_of errs ''gap'' = None" by simp
  next
    assume "length (py_split_ws gap) < 2"
    with 5 assms(3) have "append_msg ''gap'' (''Invalid Gap attribute: '' @ gap) e4 = Inr e5"
      by (simp add: check_gap_def Let_def)
    with before have "map_of e5 ''gap'' = Some (Msgs [''Invalid Gap attribute: '' @ gap])"
      by (auto dest!: append_msg_Inr simp: update_conv')
    with after show "map_of errs ''gap'' = Some (Msgs [''Invalid Gap attribute: '' @ gap])" by simp
  qed
qed

text \<open>
  C7. The claim: a Gap value whose first token is a non-negative integer gets no gap
  error, with no minimum number of tokens. Line 172 asks for at least two tokens, and
  \<open>Gap=5\<close> is reported. As amended: for every Gap value with at least two
  whitespace-separated tokens whose first token is a non-negative integer,
  \<open>validate_line\<close> reports no gap error.
\<close>

theorem validate_line_gap:
  assumes "length (line_fields line) = 9"
    and "map_of (line_attributes line) ''Gap'' = Some (Str gap)"
    and "2 \<le> length (py_split_ws gap)"
    and "py_int (py_split_ws gap ! 0) = Some l" and "0 \<le> l"
  shows "reported (validate_line sch st n line) ''gap'' = None"
proof (cases "validate_line sch st n line")
  case (Inl e)
  then show ?thesis by (simp add: reported_def)
next
  case (Inr r)
  then have "validate_line sch st n line = Inr (fst r, snd r)" by simp
  from validate_line_gap_returned[OF this assms(1,2)] assms(3-5)
  have "map_of (fst r) ''gap'' = None" by blast
  with Inr show ?thesis by (simp add: reported_def)
qed

theorem validate_line_gap_witness:
  "length (line_fields
     (gff_line [''chr1'', ''src'', ''gene'', ''1'', ''10'', ''.'', ''+'', ''.'', ''Gap=5 M3''])) = 9 \<and>
   map_of (line_attributes
     (gff_line [''chr1'', ''src'', ''gene'', ''1'', ''10'', ''.'', ''+'', ''.'', ''Gap=5 M3'']))
     ''Gap'' = Some (Str ''5 M3'') \<and>
   py_split_ws ''5 M3'' = [''5'', ''M3''] \<and> py_int ''5'' = Some 5 \<and>
   validate_line conformant_schema init_state 1
     (gff_line [''chr1'', ''src'', ''gene'', ''1'', ''10'', ''.'', ''+'', ''.'', ''Gap=5 M3'']) =
     Inr ([], \<lparr>seen_ids = {}, parent_relationships = [], feature_types = {''gene''}\<rparr>) \<and>
   reported (validate_line conformant_schema init_state 1
     (gff_line [''chr1'', ''src'', ''gene'', ''1'', ''10'', ''.'', ''+'', ''.'', ''Gap=5 M3'']))
     ''gap'' = None"
proof -
  let ?line = "gff_line [''chr1'', ''src'', ''gene'', ''1'', ''10'', ''.'', ''+'', ''.'', ''Gap=5 M3'']"
  have run: "validate_line conformant_schema init_state 1 ?line =
     Inr ([], \<lparr>seen_ids = {}, parent_relationships = [], feature_types = {''gene''}\<rparr>)"
    by code_simp
  have len: "length (line_fields ?line) = 9" by code_simp
  have gap: "map_of (line_attributes ?line) ''Gap'' = Some (Str ''5 M3'')" by code_simp
  have toks: "py_split_ws ''5 M3'' = [''5'', ''M3'']" by code_simp
  have l: "py_int ''5'' = Some 5" by code_simp
  have two: "2 \<le> length (py_split_ws ''5 M3'')" by (simp add: toks)
  have first: "py_int (py_split_ws ''5 M3'' ! 0) = Some 5" by (simp add: toks l)
  have "reported (validate_line conformant_schema init_state 1 ?line) ''gap'' = None"
    by (rule validate_line_gap[OF len gap two first]) simp
  with len gap toks l run show ?thesis by blast
qed

theorem validate_line_gap_counterexample:
  "validate_line conformant_schema init_state 1
     (gff_line [''chr1'', ''src'', ''gene'', ''1'', ''10'', ''.'', ''+'', ''.'', ''Gap=5'']) =
   Inr ([(''gap'', Msgs [''Invalid Gap attribute: 5''])],
        \<lparr>seen_ids = {}, parent_relationships = [], feature_types = {''gene''}\<rparr>) \<and>
   py_split_ws ''5'' = [''5''] \<and> py_int ''5'' = Some 5 \<and>
   reported (validate_line conformant_schema init_state 1
     (gff_line [''chr1'', ''src'', ''gene'', ''1'', ''10'', ''.'', ''+'', ''.'', ''Gap=5'']))
     ''gap'' = Some (Msgs [''Invalid Gap attribute: 5''])"
  by code_simp

subsection \<open>The attribute parser\<close>

lemma py_split_not_Nil: "py_split c s \<noteq> []"
  by (induction s) (auto split: list.splits)

lemma py_join_Cons: "ys \<noteq> [] \<Longrightarrow> py_join sep (x # ys) = x @ sep @ py_join sep ys"
  by (cases ys) simp_all

lemma py_join_split: "py_join [c] (py_split c s) = s"
proof (induction s)
  case Nil
  show ?case by simp
next
  case (Cons a s)
  show ?case
  proof (cases "a = c")
    case True
    with Cons show ?thesis by (simp add: py_join_Cons py_split_not_Nil)
  next
    case False
    obtain w ws where ws: "py_split c s = w # ws"
      using py_split_not_Nil[of c s] by (cases "py_split c s") auto
    with Cons have "py_join [c] (w # ws) = s" by simp
    then have "py_join [c] ((a # w) # ws) = a # s" by (cases ws) auto
    with False ws show ?thesis by simp
  qed
qed

lemma py_split_no_sep: "seg \<in> set (py_split c s) \<Longrightarrow> c \<notin> set seg"
proof (induction s arbitrary: seg)
  case Nil
  then show ?case by simp
next
  case (Cons a s)
  then show ?case by (auto split: if_splits list.splits)
qed

lemma segment_with_equals:
  assumes "CHR ''='' \<in> set seg"
  shows "\<exists>v. segment_value seg = Str v \<and> seg = segment_key seg @ ''='' @ v \<and>
             CHR ''='' \<notin> set (segment_key seg)"
proof -
  let ?k = "takeWhile (\<lambda>c. c \<noteq> CHR ''='') seg"
  have d: "dropWhile (\<lambda>c. c \<noteq> CHR ''='') seg \<noteq> []" using assms by simp
  then have h: "hd (dropWhile (\<lambda>c. c \<noteq> CHR ''='') seg) = CHR ''=''"
    using hd_dropWhile[of "\<lambda>c. c \<noteq> CHR ''=''" seg] by simp
  have "seg = ?k @ dropWhile (\<lambda>c. c \<noteq> CHR ''='') seg" by simp
  also have "dropWhile (\<lambda>c. c \<noteq> CHR ''='') seg = CHR ''='' # tl (dropWhile (\<lambda>c. c \<noteq> CHR ''='') seg)"
    using d h by (cases "dropWhile (\<lambda>c. c \<noteq> CHR ''='') seg") auto
  finally have seg: "seg = ?k @ CHR ''='' # tl (dropWhile (\<lambda>c. c \<noteq> CHR ''='') seg)" .
  have "drop (Suc (length ?k)) seg = tl (dropWhile (\<lambda>c. c \<noteq> CHR ''='') seg)"
    by (simp add: drop_Suc dropWhile_eq_drop[symmetric] drop_tl)
  moreover have "CHR ''='' \<notin> set ?k" by (auto dest: set_takeWhileD)
  ultimately show ?thesis using assms seg by (simp add: segment_key_def segment_value_def)
qed

lemma parse_attr_update: "parse_attr seg d = AList.update (segment_key seg) (segment_value seg) d"
proof (cases "CHR ''='' \<in> set seg")
  case True
  have "drop (Suc (length (takeWhile (\<lambda>c. c \<noteq> CHR ''='') seg))) seg =
        drop 1 (dropWhile (\<lambda>c. c \<noteq> CHR ''='') seg)"
    by (simp add: dropWhile_eq_drop[symmetric] drop_Suc drop_tl)
  with True show ?thesis
    by (simp add: parse_attr_def py_split1_def segment_key_def segment_value_def)
next
  case False
  then show ?thesis by (simp add: parse_attr_def segment_key_def segment_value_def)
qed

lemma fold_parse_attr_last:
  "map_of (fold parse_attr segs d) key =
     (case filter (\<lambda>seg. segment_key seg = key) segs of
        [] \<Rightarrow> map_of d key
      | seg # rest \<Rightarrow> Some (segment_value (last (seg # rest))))"
proof (induction segs arbitrary: d)
  case Nil
  show ?case by simp
next
  case (Cons s segs)
  have "map_of (fold parse_attr (s # segs) d) key = map_of (fold parse_attr segs (parse_attr s d)) key"
    by simp
  also have "\<dots> = (case filter (\<lambda>seg. segment_key seg = key) segs of
        [] \<Rightarrow> map_of (parse_attr s d) key
      | seg # rest \<Rightarrow> Some (segment_value (last (seg # rest))))"
    by (rule Cons.IH)
  also have "map_of (parse_attr s d) key =
      (if segment_key s = key then Some (segment_value s) else map_of d key)"
    by (auto simp: parse_attr_update update_conv')
  finally show ?case
    by (simp split: list.splits)
qed

text \<open>
  C8. For every raw attributes text: the segments are the pieces between the semicolons
  (joined with semicolons they give the text back, and none holds a semicolon); a segment
  with \<open>=\<close> has the key before its first \<open>=\<close> and the rest as value, a segment without
  \<open>=\<close> is the key of the flag; and the dictionary the loop of lines 86 to 92 builds maps
  each key to the value of its last segment.
\<close>

theorem parse_attributes_last_wins:
  "py_join '';'' (py_split (CHR '';'') raw) = raw \<and>
   (\<forall>seg \<in> set (py_split (CHR '';'') raw). CHR '';'' \<notin> set seg) \<and>
   (CHR ''='' \<in> set seg \<longrightarrow>
      (\<exists>v. segment_value seg = Str v \<and> seg = segment_key seg @ ''='' @ v \<and>
           CHR ''='' \<notin> set (segment_key seg))) \<and>
   (CHR ''='' \<notin> set seg \<longrightarrow> segment_key seg = seg \<and> segment_value seg = Flag) \<and>
   map_of (parse_attributes raw) key = attribute_map_spec raw key"
proof (intro conjI)
  show "py_join '';'' (py_split (CHR '';'') raw) = raw" by (rule py_join_split)
  show "\<forall>seg \<in> set (py_split (CHR '';'') raw). CHR '';'' \<notin> set seg"
    by (auto dest: py_split_no_sep)
  show "CHR ''='' \<in> set seg \<longrightarrow>
      (\<exists>v. segment_value seg = Str v \<and> seg = segment_key seg @ ''='' @ v \<and>
           CHR ''='' \<notin> set (segment_key seg))"
    using segment_with_equals by blast
  show "CHR ''='' \<notin> set seg \<longrightarrow> segment_key seg = seg \<and> segment_value seg = Flag"
    by (simp add: segment_key_def segment_value_def)
  show "map_of (parse_attributes raw) key = attribute_map_spec raw key"
    by (simp add: parse_attributes_def attribute_map_spec_def fold_parse_attr_last
          split: list.splits)
qed

theorem parse_attributes_last_wins_witness:
  "py_split (CHR '';'') ''ID=a;Parent=b=c;;flag;ID=z'' =
     [''ID=a'', ''Parent=b=c'', '''', ''flag'', ''ID=z''] \<and>
   parse_attributes ''ID=a;Parent=b=c;;flag;ID=z'' =
     [(''ID'', Str ''z''), (''Parent'', Str ''b=c''), ('''', Flag), (''flag'', Flag)] \<and>
   attribute_map_spec ''ID=a;Parent=b=c;;flag;ID=z'' ''ID'' = Some (Str ''z'') \<and>
   segment_key ''Parent=b=c'' = ''Parent'' \<and> segment_value ''Parent=b=c'' = Str ''b=c''"
proof -
  have 1: "py_split (CHR '';'') ''ID=a;Parent=b=c;;flag;ID=z'' =
     [''ID=a'', ''Parent=b=c'', '''', ''flag'', ''ID=z'']" by code_simp
  have 2: "parse_attributes ''ID=a;Parent=b=c;;flag;ID=z'' =
     [(''ID'', Str ''z''), (''Parent'', Str ''b=c''), ('''', Flag), (''flag'', Flag)]" by code_simp
  have 3: "segment_key ''Parent=b=c'' = ''Parent''" by code_simp
  have 4: "segment_value ''Parent=b=c'' = Str ''b=c''" by code_simp
  from parse_attributes_last_wins[of "''ID=a;Parent=b=c;;flag;ID=z''" "''Parent=b=c''" "''ID''"]
  have "attribute_map_spec ''ID=a;Parent=b=c;;flag;ID=z'' ''ID'' =
          map_of (parse_attributes ''ID=a;Parent=b=c;;flag;ID=z'') ''ID''"
    by simp
  with 1 2 3 4 show ?thesis by simp
qed

subsection \<open>The loop over the lines and the keys of the report\<close>

lemma update_fresh: "k \<notin> fst ` set d \<Longrightarrow> AList.update k v d = d @ [(k, v)]"
  by (induction d) auto

lemma dict_update_distinct:
  "distinct (map fst (d @ xs)) \<Longrightarrow> dict_update xs d = d @ xs"
  unfolding dict_update_def
proof (induction xs arbitrary: d)
  case Nil
  show ?case by simp
next
  case (Cons x xs)
  have "AList.update (fst x) (snd x) d = d @ [x]"
    using Cons.prems by (subst update_fresh) auto
  moreover have "distinct (map fst ((d @ [x]) @ xs))" using Cons.prems by simp
  ultimately show ?case using Cons.IH[of "d @ [x]"] by simp
qed

lemma process_lines_append:
  "process_lines sch (a @ b) rep st n =
     and_then (process_lines sch a rep st n) (\<lambda>(r, s, m). process_lines sch b r s m)"
proof (induction a arbitrary: rep st n)
  case Nil
  show ?case by (simp add: and_then_def)
next
  case (Cons l a)
  show ?case
  proof (cases "starts_with_hash l")
    case True
    then show ?thesis by (simp add: Cons.IH)
  next
    case False
    show ?thesis
    proof (cases "validate_line sch st n l")
      case (Inl e)
      with False show ?thesis by (simp add: and_then_def)
    next
      case (Inr p)
      obtain errs st1 where p: "p = (errs, st1)" by (cases p)
      show ?thesis
      proof (cases "if errs \<noteq> [] then add_line_errors n errs rep else Inr rep")
        case (Inl e)
        with False Inr p show ?thesis by (simp add: and_then_def)
      next
        case (Inr rep1)
        with False \<open>validate_line sch st n l = Inr p\<close> p show ?thesis
          by (simp add: and_then_def Cons.IH)
      qed
    qed
  qed
qed

lemma add_line_errors_fresh:
  "map_of rep (LineNo n) = None \<Longrightarrow>
   add_line_errors n errs rep = Inr (AList.update (LineNo n) (Entry (dict_update errs [])) rep)"
  by (simp add: add_line_errors_def)

lemma process_lines_Cons_Inr:
  assumes "process_lines sch (l # ls) rep st n = Inr res" and "\<not> starts_with_hash l"
  shows "\<exists>errs st1 rep1. validate_line sch st n l = Inr (errs, st1) \<and>
           (if errs \<noteq> [] then add_line_errors n errs rep else Inr rep) = Inr rep1 \<and>
           process_lines sch ls rep1 st1 (n + 1) = Inr res"
  using assms by (auto simp: and_then_Inr)

lemma process_lines_report:
  assumes "process_lines sch ls rep st n = Inr (r, s, m)"
    and "\<forall>j\<ge>n. map_of rep (LineNo j) = None"
  shows "m = n + int (length (noncomment ls)) \<and>
         (\<forall>j\<ge>m. map_of r (LineNo j) = None) \<and>
         (\<forall>j<n. map_of r (LineNo j) = map_of rep (LineNo j)) \<and>
         (\<forall>c. map_of r (Key c) = map_of rep (Key c))"
  using assms
proof (induction ls arbitrary: rep st n)
  case Nil
  then show ?case by (simp add: noncomment_def)
next
  case (Cons l ls)
  show ?case
  proof (cases "starts_with_hash l")
    case True
    with Cons.prems have "process_lines sch ls rep st n = Inr (r, s, m)" by simp
    from Cons.IH[OF this Cons.prems(2)] True show ?thesis by (simp add: noncomment_def)
  next
    case False
    from process_lines_Cons_Inr[OF Cons.prems(1) False] obtain errs st1 rep1 where
      v: "validate_line sch st n l = Inr (errs, st1)" and
      a: "(if errs \<noteq> [] then add_line_errors n errs rep else Inr rep) = Inr rep1" and
      p: "process_lines sch ls rep1 st1 (n + 1) = Inr (r, s, m)"
      by blast
    have fresh: "map_of rep (LineNo n) = None" using Cons.prems(2) by simp
    have rep1: "rep1 = rep \<or> rep1 = AList.update (LineNo n) (Entry (dict_update errs [])) rep"
      using a add_line_errors_fresh[OF fresh, of errs] by (auto split: if_splits)
    then have other: "\<And>key. key \<noteq> LineNo n \<Longrightarrow> map_of rep1 key = map_of rep key"
      by (auto simp: update_conv')
    have "\<forall>j\<ge>n + 1. map_of rep1 (LineNo j) = None"
      using Cons.prems(2) other by simp
    from Cons.IH[OF p this] have
      1: "m = n + 1 + int (length (noncomment ls))" and
      2: "\<forall>j\<ge>m. map_of r (LineNo j) = None" and
      3: "\<forall>j<n + 1. map_of r (LineNo j) = map_of rep1 (LineNo j)" and
      4: "\<forall>c. map_of r (Key c) = map_of rep1 (Key c)"
      by auto
    from 1 False have "m = n + int (length (noncomment (l # ls)))" by (simp add: noncomment_def)
    moreover from 3 other have "\<forall>j<n. map_of r (LineNo j) = map_of rep (LineNo j)" by simp
    moreover from 4 other have "\<forall>c. map_of r (Key c) = map_of rep (Key c)" by simp
    ultimately show ?thesis using 2 by simp
  qed
qed

lemma process_lines_line_entry:
  assumes "process_lines sch (pre @ l # post) rep st n = Inr (r, s, m)"
    and "\<not> starts_with_hash l"
    and "\<forall>j\<ge>n. map_of rep (LineNo j) = None"
  shows "\<exists>rep0 st0 errs st1.
     process_lines sch pre rep st n = Inr (rep0, st0, n + int (length (noncomment pre))) \<and>
     validate_line sch st0 (n + int (length (noncomment pre))) l = Inr (errs, st1) \<and>
     map_of r (LineNo (n + int (length (noncomment pre)))) =
       (if errs = [] then None else Some (Entry (dict_update errs [])))"
proof -
  from assms(1) obtain rep0 st0 k where
    pre: "process_lines sch pre rep st n = Inr (rep0, st0, k)" and
    rest: "process_lines sch (l # post) rep0 st0 k = Inr (r, s, m)"
    by (auto simp: process_lines_append and_then_Inr)
  from process_lines_report[OF pre assms(3)] have
    k: "k = n + int (length (noncomment pre))" and
    fresh: "\<forall>j\<ge>k. map_of rep0 (LineNo j) = None"
    by auto
  from process_lines_Cons_Inr[OF rest assms(2)] obtain errs st1 rep1 where
    v: "validate_line sch st0 k l = Inr (errs, st1)" and
    a: "(if errs \<noteq> [] then add_line_errors k errs rep0 else Inr rep0) = Inr rep1" and
    p: "process_lines sch post rep1 st1 (k + 1) = Inr (r, s, m)"
    by blast
  have f: "map_of rep0 (LineNo k) = None" using fresh by simp
  have rep1: "map_of rep1 (LineNo k) = (if errs = [] then None else Some (Entry (dict_update errs [])))"
    using a add_line_errors_fresh[OF f, of errs] f by (auto simp: update_conv' split: if_splits)
  have "\<forall>j\<ge>k + 1. map_of rep1 (LineNo j) = None"
    using a add_line_errors_fresh[OF f, of errs] fresh by (auto simp: update_conv' split: if_splits)
  from process_lines_report[OF p this] have "map_of r (LineNo k) = map_of rep1 (LineNo k)" by simp
  with rep1 pre v k show ?thesis by auto
qed


lemma check_positions_distinct:
  "distinct (map fst e) \<Longrightarrow> distinct (map fst (check_positions a b e))"
  by (simp add: check_positions_def Let_def distinct_update split: option.splits)

lemma validate_fields_distinct: "distinct (map fst (fst (validate_fields sch flds st)))"
  by (simp add: validate_fields_unfold check_phase_def check_strand_def check_score_def
        check_positions_distinct check_type_def check_source_def check_seqid_def distinct_update)

lemma check_attributes_distinct:
  "distinct (map fst e) \<Longrightarrow> distinct (map fst (check_attributes sch d e))"
  unfolding check_attributes_def
  by (induction d arbitrary: e) (auto simp: check_attribute_def distinct_update)

lemma check_id_distinct:
  "check_id d e st = Inr (e1, st1, idv) \<Longrightarrow> distinct (map fst e) \<Longrightarrow> distinct (map fst e1)"
  by (auto simp: check_id_def Let_def distinct_update
           split: option.splits attr_value.splits if_splits)

lemma validate_line_distinct:
  assumes "validate_line sch st n line = Inr (errs, st')"
  shows "distinct (map fst errs)"
proof (cases "length (line_fields line) = 9")
  case False
  with assms show ?thesis by (auto simp: validate_line_short)
next
  case True
  from validate_line_Inr[OF assms True] obtain e1 st1 idv where
    i: "check_id (line_attributes line)
       (check_attributes sch (line_attributes line) (fst (validate_fields sch (line_fields line) st)))
       (snd (validate_fields sch (line_fields line) st)) = Inr (e1, st1, idv)" and
    a: "appended list_categories e1 errs"
    by blast
  have "distinct (map fst e1)"
    by (rule check_id_distinct[OF i]) (simp add: check_attributes_distinct validate_fields_distinct)
  with a show ?thesis by (rule appended_distinct)
qed

lemma unresolved_child_LineNo:
  "unresolved_child p c rep = Inr rep' \<Longrightarrow> map_of rep' (LineNo j) = map_of rep (LineNo j)"
  by (auto simp: unresolved_child_def and_then_Inr update_conv'
           split: option.splits report_value.splits)

lemma unresolved_parent_LineNo:
  assumes "unresolved_parent seen item rep = Inr rep'"
  shows "map_of rep' (LineNo j) = map_of rep (LineNo j)"
proof (cases "fst item \<in> seen")
  case True
  with assms show ?thesis by (simp add: unresolved_parent_def)
next
  case False
  with assms have fe: "for_each (unresolved_child (fst item)) (snd item) rep = Inr rep'"
    by (simp add: unresolved_parent_def)
  show ?thesis
    by (rule for_each_rel[OF fe, where R = "\<lambda>r. map_of r (LineNo j) = map_of rep (LineNo j)"])
       (simp_all add: unresolved_child_LineNo)
qed

lemma check_unresolved_LineNo:
  assumes "check_unresolved st rep = Inr rep'"
  shows "map_of rep' (LineNo j) = map_of rep (LineNo j)"
  by (rule for_each_rel[OF assms[unfolded check_unresolved_def],
        where R = "\<lambda>r. map_of r (LineNo j) = map_of rep (LineNo j)"])
     (simp_all add: unresolved_parent_LineNo)

lemma check_feature_types_LineNo:
  "check_feature_types sch st rep = Inr rep' \<Longrightarrow> map_of rep' (LineNo j) = map_of rep (LineNo j)"
  by (auto simp: check_feature_types_def update_conv' split: option.splits if_splits)

lemma validate_file_Inr:
  assumes "validate_file sch lines = Inr rep"
  shows "\<exists>rep1 st n rep2. process_lines sch lines [] init_state 1 = Inr (rep1, st, n) \<and>
           check_unresolved st rep1 = Inr rep2 \<and> check_feature_types sch st rep2 = Inr rep"
  using assms by (auto simp: validate_file_def and_then_Inr)

lemma validate_file_line_entry:
  assumes "validate_file sch (pre @ line # post) = Inr rep"
    and "\<not> starts_with_hash line"
  shows "\<exists>rep0 st0 errs st1.
     process_lines sch pre [] init_state 1 = Inr (rep0, st0, 1 + int (length (noncomment pre))) \<and>
     validate_line sch st0 (1 + int (length (noncomment pre))) line = Inr (errs, st1) \<and>
     map_of rep (LineNo (1 + int (length (noncomment pre)))) =
       (if errs = [] then None else Some (Entry errs))"
proof -
  from validate_file_Inr[OF assms(1)] obtain rep1 st n rep2 where
    p: "process_lines sch (pre @ line # post) [] init_state 1 = Inr (rep1, st, n)" and
    u: "check_unresolved st rep1 = Inr rep2" and
    f: "check_feature_types sch st rep2 = Inr rep"
    by blast
  let ?k = "1 + int (length (noncomment pre))"
  from process_lines_line_entry[OF p assms(2)] obtain rep0 st0 errs st1 where
    pre: "process_lines sch pre [] init_state 1 = Inr (rep0, st0, ?k)" and
    v: "validate_line sch st0 ?k line = Inr (errs, st1)" and
    e: "map_of rep1 (LineNo ?k) = (if errs = [] then None else Some (Entry (dict_update errs [])))"
    by auto
  have "dict_update errs [] = errs"
    using dict_update_distinct[of "[]" errs] validate_line_distinct[OF v] by simp
  moreover have "map_of rep (LineNo ?k) = map_of rep1 (LineNo ?k)"
    using check_feature_types_LineNo[OF f] check_unresolved_LineNo[OF u] by simp
  ultimately show ?thesis using pre v e by auto
qed

text \<open>
  C10. When \<open>validate_file\<close> returns a report, a line that is not a comment is validated
  under the number one plus the count of the lines before it that are not comments, and
  the report holds the errors of the line under that number (and nothing there when the
  line has no errors). In the witness a comment stands first, and the errors of the second
  line of the file appear under the key 1.
\<close>

theorem validate_file_line_number:
  assumes "validate_file sch (pre @ line # post) = Inr rep"
    and "\<not> starts_with_hash line"
  shows "\<exists>rep0 st0 errs st1.
     process_lines sch pre [] init_state 1 = Inr (rep0, st0, 1 + int (length (noncomment pre))) \<and>
     validate_line sch st0 (1 + int (length (noncomment pre))) line = Inr (errs, st1) \<and>
     map_of rep (LineNo (1 + int (length (noncomment pre)))) =
       (if errs = [] then None else Some (Entry errs))"
  using assms by (rule validate_file_line_entry)

theorem validate_file_line_number_witness:
  "validate_file conformant_schema
     [''##gff-version 3'' @ [CHR 0x0A],
      gff_line [''chr1'', ''src'', ''gene'', ''0'', ''10'', ''.'', ''+'', ''.'', ''ID=gene1'']] =
     Inr [(LineNo 1, Entry [(''start'', Msg ''Start position must be >= 1: 0'')])] \<and>
   \<not> starts_with_hash
       (gff_line [''chr1'', ''src'', ''gene'', ''0'', ''10'', ''.'', ''+'', ''.'', ''ID=gene1'']) \<and>
   noncomment [''##gff-version 3'' @ [CHR 0x0A]] = [] \<and>
   map_of [(LineNo 1, Entry [(''start'', Msg ''Start position must be >= 1: 0'')])]
     (LineNo (1 + int (length (noncomment [''##gff-version 3'' @ [CHR 0x0A]])))) =
     Some (Entry [(''start'', Msg ''Start position must be >= 1: 0'')])"
proof -
  let ?c = "''##gff-version 3'' @ [CHR 0x0A]"
  let ?l = "gff_line [''chr1'', ''src'', ''gene'', ''0'', ''10'', ''.'', ''+'', ''.'', ''ID=gene1'']"
  let ?E = "[(''start'', Msg ''Start position must be >= 1: 0'')]"
  have run: "validate_file conformant_schema ([?c] @ ?l # []) = Inr [(LineNo 1, Entry ?E)]"
    by code_simp
  have nc: "\<not> starts_with_hash ?l" by code_simp
  have n0: "noncomment [?c] = []" by code_simp
  have v: "validate_line conformant_schema init_state 1 ?l =
      Inr (?E, \<lparr>seen_ids = {''gene1''}, parent_relationships = [], feature_types = {''gene''}\<rparr>)"
    by code_simp
  have pre: "process_lines conformant_schema [?c] [] init_state 1 = Inr ([], init_state, 1)"
    by code_simp
  from validate_file_line_number[OF run nc] pre v n0
  have "map_of [(LineNo 1, Entry ?E)] (LineNo (1 + int (length (noncomment [?c])))) = Some (Entry ?E)"
    by simp
  with run nc n0 show ?thesis by simp
qed

subsection \<open>Parent references and the pass at the end of the file\<close>

lemma for_each_member:
  assumes "for_each body xs s = Inr s'" and "x \<in> set xs" and "I s"
    and inv: "\<And>y a b. body y a = Inr b \<Longrightarrow> I a \<Longrightarrow> I b"
    and est: "\<And>a b. body x a = Inr b \<Longrightarrow> I a \<Longrightarrow> P b"
    and pres: "\<And>y a b. body y a = Inr b \<Longrightarrow> P a \<Longrightarrow> P b"
  shows "P s'"
  using assms(1-3)
proof (induction xs arbitrary: s)
  case Nil
  then show ?case by simp
next
  case (Cons y ys)
  from Cons.prems(1) obtain s1 where b: "body y s = Inr s1" and r: "for_each body ys s1 = Inr s'"
    by (auto simp: and_then_Inr)
  show ?case
  proof (cases "x = y")
    case True
    with b Cons.prems(3) have "P s1" by (auto intro: est)
    show ?thesis
      by (rule for_each_rel[OF r, where R = P]) (use \<open>P s1\<close> pres in auto)
  next
    case False
    with Cons.prems(2) have "x \<in> set ys" by simp
    moreover have "I s1" using inv[OF b Cons.prems(3)] .
    ultimately show ?thesis using Cons.IH[OF r] by simp
  qed
qed

lemma validate_fields_seen_ids: "seen_ids (snd (validate_fields sch flds st)) = seen_ids st"
  by (simp add: validate_fields_state check_type_def)




















subsection \<open>The shape of the report\<close>

lemma bare_only_Nil: "bare_only []"
  by (simp add: bare_only_def)

lemma bare_only_update: "bare_only e \<Longrightarrow> bare_only (AList.update k (Msg m) e)"
  by (auto simp: bare_only_def update_conv' split: if_splits)

lemma check_positions_bare: "bare_only e \<Longrightarrow> bare_only (check_positions a b e)"
  by (simp add: check_positions_def Let_def bare_only_update split: option.splits)

lemma check_seqid_bare: "bare_only e \<Longrightarrow> bare_only (check_seqid sch x e)"
  by (simp add: check_seqid_def bare_only_update)

lemma check_source_bare: "bare_only e \<Longrightarrow> bare_only (check_source sch x e)"
  by (simp add: check_source_def bare_only_update)

lemma check_type_bare: "bare_only (fst es) \<Longrightarrow> bare_only (fst (check_type sch x es))"
  by (simp add: check_type_def bare_only_update)

lemma check_score_bare: "bare_only e \<Longrightarrow> bare_only (check_score sch x e)"
  by (simp add: check_score_def bare_only_update)

lemma check_strand_bare: "bare_only e \<Longrightarrow> bare_only (check_strand x e)"
  by (simp add: check_strand_def bare_only_update)

lemma check_phase_bare: "bare_only e \<Longrightarrow> bare_only (check_phase sch x e)"
  by (simp add: check_phase_def bare_only_update)

lemma validate_fields_bare: "bare_only (fst (validate_fields sch flds st))"
  unfolding validate_fields_unfold
  by (intro check_phase_bare check_strand_bare check_score_bare check_positions_bare
        check_type_bare) (simp add: check_source_bare check_seqid_bare bare_only_Nil)

lemma check_attributes_bare: "bare_only e \<Longrightarrow> bare_only (check_attributes sch d e)"
  unfolding check_attributes_def
  by (induction d arbitrary: e) (auto simp: check_attribute_def bare_only_update)

lemma check_id_bare:
  "check_id d e st = Inr (e1, st1, idv) \<Longrightarrow> bare_only e \<Longrightarrow> bare_only e1"
  by (auto simp: check_id_def Let_def bare_only_update
           split: option.splits attr_value.splits if_splits)

lemma append_msg_Msgs:
  "append_msg k m e = Inr e' \<Longrightarrow> map_of e' k' = Some (Msgs ms) \<Longrightarrow>
     k' = k \<or> map_of e k' = Some (Msgs ms)"
  by (auto dest!: append_msg_Inr simp: update_conv' split: if_splits)

lemma appended_Msgs:
  "appended K e e' \<Longrightarrow> map_of e' k = Some (Msgs ms) \<Longrightarrow> k \<in> K \<or> map_of e k = Some (Msgs ms)"
proof (induction rule: appended.induct)
  case (appended_refl e)
  then show ?case by simp
next
  case (appended_step e e1 k0 m e2)
  from append_msg_Msgs[OF appended_step.hyps(3) appended_step.prems]
  show ?case using appended_step by auto
qed

lemma validate_line_shape:
  assumes "validate_line sch st n line = Inr (errs, st')" and "map_of errs c = Some x"
  shows "value_shape (LineNo j) c x"
proof (cases "length (line_fields line) = 9")
  case False
  with assms show ?thesis
    by (auto simp: validate_line_short value_shape_def list_categories_def split: if_splits)
next
  case True
  from validate_line_Inr[OF assms(1) True] obtain e1 st1 idv where
    i: "check_id (line_attributes line)
       (check_attributes sch (line_attributes line) (fst (validate_fields sch (line_fields line) st)))
       (snd (validate_fields sch (line_fields line) st)) = Inr (e1, st1, idv)" and
    a: "appended list_categories e1 errs"
    by blast
  have bare: "bare_only e1"
    by (rule check_id_bare[OF i]) (simp add: check_attributes_bare validate_fields_bare)
  show ?thesis
  proof (cases x)
    case (Msg m)
    with assms(2) a have "map_of e1 c = Some (Msg m)" by (simp add: appended_Msg)
    then have "c \<notin> list_categories"
      using before_reserved_no_list_category[OF i, of c] by auto
    with Msg show ?thesis by (simp add: value_shape_def)
  next
    case (Msgs ms)
    with assms(2) appended_Msgs[OF a, of c ms] bare have "c \<in> list_categories"
      by (auto simp: bare_only_def)
    with Msgs show ?thesis by (simp add: value_shape_def)
  qed
qed

lemma dict_update_map_of:
  "map_of (dict_update xs d) k = Some v \<Longrightarrow> map_of d k = Some v \<or> (k, v) \<in> set xs"
  unfolding dict_update_def
proof (induction xs arbitrary: d)
  case Nil
  then show ?case by simp
next
  case (Cons x xs)
  from Cons.IH[of "AList.update (fst x) (snd x) d"] Cons.prems
  show ?case by (auto simp: update_conv' split: if_splits)
qed

lemma dict_update_keys_distinct:
  "distinct (map fst d) \<Longrightarrow> distinct (map fst (dict_update xs d))"
  unfolding dict_update_def
  by (induction xs arbitrary: d) (simp_all add: distinct_update)

lemma dict_update_entry_ok:
  assumes "distinct (map fst e)"
    and "\<And>c x. map_of e c = Some x \<Longrightarrow> value_shape key c x"
    and "\<And>c x. (c, x) \<in> set xs \<Longrightarrow> value_shape key c x"
  shows "entry_ok key (Entry (dict_update xs e))"
proof -
  have "distinct (map fst (dict_update xs e))"
    by (rule dict_update_keys_distinct[OF assms(1)])
  moreover have "value_shape key c x" if "map_of (dict_update xs e) c = Some x" for c x
    using dict_update_map_of[OF that] assms(2,3) by blast
  ultimately show ?thesis unfolding entry_ok_def by simp
qed

lemma report_ok_update:
  "report_ok rep \<Longrightarrow> entry_ok key v \<Longrightarrow> report_ok (AList.update key v rep)"
  by (auto simp: report_ok_def update_conv' split: if_splits)

lemma add_line_errors_ok:
  assumes "add_line_errors n errs rep = Inr rep'" and "report_ok rep"
    and "validate_line sch st n0 line = Inr (errs, st')"
  shows "report_ok rep'"
proof -
  have sh: "value_shape (LineNo n) c x" if "(c, x) \<in> set errs" for c x
  proof -
    from that validate_line_distinct[OF assms(3)] have "map_of errs c = Some x" by simp
    then show ?thesis by (rule validate_line_shape[OF assms(3)])
  qed
  show ?thesis
  proof (cases "map_of rep (LineNo n)")
    case None
    have "entry_ok (LineNo n) (Entry (dict_update errs []))"
      by (rule dict_update_entry_ok) (simp_all add: sh)
    with None assms(1,2) show ?thesis by (auto simp: add_line_errors_def intro: report_ok_update)
  next
    case (Some v)
    show ?thesis
    proof (cases v)
      case (Text t)
      with Some assms(1) show ?thesis by (simp add: add_line_errors_def)
    next
      case (Entry e)
      with Some assms(2) have "entry_ok (LineNo n) (Entry e)" by (simp add: report_ok_def)
      then have "entry_ok (LineNo n) (Entry (dict_update errs e))"
        by (intro dict_update_entry_ok) (simp_all add: entry_ok_def sh)
      with Some Entry assms(1,2) show ?thesis
        by (auto simp: add_line_errors_def intro: report_ok_update)
    qed
  qed
qed

lemma process_lines_ok:
  assumes "process_lines sch ls rep st n = Inr (r, s, m)" and "report_ok rep"
  shows "report_ok r"
  using assms
proof (induction ls arbitrary: rep st n)
  case Nil
  then show ?case by simp
next
  case (Cons l ls)
  show ?case
  proof (cases "starts_with_hash l")
    case True
    with Cons.prems have "process_lines sch ls rep st n = Inr (r, s, m)" by simp
    from Cons.IH[OF this Cons.prems(2)] show ?thesis .
  next
    case False
    from process_lines_Cons_Inr[OF Cons.prems(1) False] obtain errs st1 rep1 where
      v: "validate_line sch st n l = Inr (errs, st1)" and
      a: "(if errs \<noteq> [] then add_line_errors n errs rep else Inr rep) = Inr rep1" and
      p: "process_lines sch ls rep1 st1 (n + 1) = Inr (r, s, m)"
      by blast
    have "report_ok rep1"
    proof (cases "errs = []")
      case True
      with a Cons.prems(2) show ?thesis by simp
    next
      case False
      with a have "add_line_errors n errs rep = Inr rep1" by simp
      from add_line_errors_ok[OF this Cons.prems(2) v] show ?thesis .
    qed
    from Cons.IH[OF p this] show ?thesis .
  qed
qed


lemma append_msg_parent_ok:
  assumes "append_msg ''parent'' m e0 = Inr e" and "entry_ok (Key c) (Entry e0)"
  shows "entry_ok (Key c) (Entry e)"
proof -
  from append_msg_Inr[OF assms(1)] obtain ms where
    e: "e = AList.update ''parent'' (Msgs (ms @ [m])) e0" by blast
  with assms(2) show ?thesis
    by (auto simp: entry_ok_def distinct_update update_conv' value_shape_def split: if_splits)
qed

lemma unresolved_child_ok:
  assumes "unresolved_child p c rep = Inr rep'" and "report_ok rep"
  shows "report_ok rep'"
proof (cases "map_of rep (Key c)")
  case None
  with assms(1) obtain e where a: "append_msg ''parent'' (''Parent ID not found: '' @ p) [] = Inr e"
    and r: "rep' = AList.update (Key c) (Entry e) rep"
    by (auto simp: unresolved_child_def and_then_Inr)
  have "entry_ok (Key c) (Entry [])" by (simp add: entry_ok_def)
  from append_msg_parent_ok[OF a this] r assms(2) show ?thesis by (simp add: report_ok_update)
next
  case (Some v)
  show ?thesis
  proof (cases v)
    case (Text t)
    with Some assms(1) show ?thesis by (simp add: unresolved_child_def)
  next
    case (Entry e0)
    with Some assms(1) obtain e where
      a: "append_msg ''parent'' (''Parent ID not found: '' @ p) e0 = Inr e"
      and r: "rep' = AList.update (Key c) (Entry e) rep"
      by (auto simp: unresolved_child_def and_then_Inr)
    from Some Entry assms(2) have "entry_ok (Key c) (Entry e0)" by (simp add: report_ok_def)
    from append_msg_parent_ok[OF a this] r assms(2) show ?thesis by (simp add: report_ok_update)
  qed
qed

lemma unresolved_parent_ok:
  assumes "unresolved_parent seen item rep = Inr rep'" and "report_ok rep"
  shows "report_ok rep'"
proof (cases "fst item \<in> seen")
  case True
  with assms show ?thesis by (simp add: unresolved_parent_def)
next
  case False
  with assms have fe: "for_each (unresolved_child (fst item)) (snd item) rep = Inr rep'"
    by (simp add: unresolved_parent_def)
  show ?thesis
    by (rule for_each_rel[OF fe, where R = report_ok]) (auto simp: assms(2) intro: unresolved_child_ok)
qed

lemma check_unresolved_ok:
  assumes "check_unresolved st rep = Inr rep'" and "report_ok rep"
  shows "report_ok rep'"
  by (rule for_each_rel[OF assms(1)[unfolded check_unresolved_def], where R = report_ok])
     (auto simp: assms(2) intro: unresolved_parent_ok)

lemma check_feature_types_ok:
  "check_feature_types sch st rep = Inr rep' \<Longrightarrow> report_ok rep \<Longrightarrow> report_ok rep'"
  by (auto simp: check_feature_types_def entry_ok_def split: option.splits if_splits
           intro: report_ok_update)

lemma validate_file_report_ok:
  assumes "validate_file sch lines = Inr rep"
  shows "report_ok rep"
proof -
  from validate_file_Inr[OF assms] obtain rep1 st n rep2 where
    p: "process_lines sch lines [] init_state 1 = Inr (rep1, st, n)" and
    u: "check_unresolved st rep1 = Inr rep2" and
    f: "check_feature_types sch st rep2 = Inr rep"
    by blast
  have "report_ok []" by (simp add: report_ok_def)
  from process_lines_ok[OF p this] have "report_ok rep1" .
  from check_unresolved_ok[OF u this] have "report_ok rep2" .
  from check_feature_types_ok[OF f this] show ?thesis .
qed

lemma entry_ok_shape: "entry_ok key v \<Longrightarrow> entry_shape key v"
proof (cases v)
  case (Entry e)
  assume "entry_ok key v"
  with Entry have d: "distinct (map fst e)"
    and sh: "\<And>c x. map_of e c = Some x \<Longrightarrow> value_shape key c x"
    by (auto simp: entry_ok_def)
  have "value_shape key (fst cv) (snd cv)" if "cv \<in> set e" for cv
  proof -
    have "map_of e (fst cv) = Some (snd cv)"
      using map_of_is_SomeI[OF d, of "fst cv" "snd cv"] that by simp
    then show ?thesis by (rule sh)
  qed
  with Entry show ?thesis by (simp add: entry_shape_def list_all_iff)
next
  case (Text t)
  assume "entry_ok key v"
  with Text show ?thesis by (simp add: entry_ok_def entry_shape_def)
qed

lemma add_line_errors_keys:
  "add_line_errors n errs rep = Inr rep' \<Longrightarrow> distinct (map fst rep) \<Longrightarrow> distinct (map fst rep')"
  by (auto simp: add_line_errors_def distinct_update split: option.splits report_value.splits)

lemma process_lines_keys:
  assumes "process_lines sch ls rep st n = Inr (r, s, m)" and "distinct (map fst rep)"
  shows "distinct (map fst r)"
  using assms
proof (induction ls arbitrary: rep st n)
  case Nil
  then show ?case by simp
next
  case (Cons l ls)
  show ?case
  proof (cases "starts_with_hash l")
    case True
    with Cons.prems have "process_lines sch ls rep st n = Inr (r, s, m)" by simp
    from Cons.IH[OF this Cons.prems(2)] show ?thesis .
  next
    case False
    from process_lines_Cons_Inr[OF Cons.prems(1) False] obtain errs st1 rep1 where
      a: "(if errs \<noteq> [] then add_line_errors n errs rep else Inr rep) = Inr rep1" and
      p: "process_lines sch ls rep1 st1 (n + 1) = Inr (r, s, m)"
      by blast
    have "distinct (map fst rep1)"
      using a Cons.prems(2) by (auto split: if_splits dest: add_line_errors_keys)
    from Cons.IH[OF p this] show ?thesis .
  qed
qed

lemma unresolved_child_keys:
  "unresolved_child p c rep = Inr rep' \<Longrightarrow> distinct (map fst rep) \<Longrightarrow> distinct (map fst rep')"
  by (auto simp: unresolved_child_def and_then_Inr distinct_update
           split: option.splits report_value.splits)

lemma check_unresolved_keys:
  assumes "check_unresolved st rep = Inr rep'" and "distinct (map fst rep)"
  shows "distinct (map fst rep')"
proof (rule for_each_rel[OF assms(1)[unfolded check_unresolved_def],
         where R = "\<lambda>r. distinct (map fst r)"])
  show "distinct (map fst rep)" by (rule assms(2))
next
  fix x a b
  assume b: "unresolved_parent (seen_ids st) x a = Inr b" and a: "distinct (map fst a)"
  show "distinct (map fst b)"
  proof (cases "fst x \<in> seen_ids st")
    case True
    with a b show ?thesis by (simp add: unresolved_parent_def)
  next
    case False
    with b have fe: "for_each (unresolved_child (fst x)) (snd x) a = Inr b"
      by (simp add: unresolved_parent_def)
    show ?thesis
      by (rule for_each_rel[OF fe, where R = "\<lambda>r. distinct (map fst r)"])
         (auto simp: a intro: unresolved_child_keys)
  qed
qed

lemma check_feature_types_keys:
  "check_feature_types sch st rep = Inr rep' \<Longrightarrow> distinct (map fst rep) \<Longrightarrow>
     distinct (map fst rep')"
  by (auto simp: check_feature_types_def distinct_update split: option.splits if_splits)

text \<open>
  C9. The claim: every entry of the report maps a category to an ordered list of texts,
  never to a bare text. The code stores a bare text for the structural error, for every
  field, for \<open>attribute.<key>\<close> and for \<open>id\<close>, and the entry \<open>feature_type\<close> is itself a
  bare text. As amended: the keys of the report are distinct; an entry under a line number
  maps the categories parent, alias, note, target, derives_from, gap, replacement,
  sequence, variant_seq, amino_acid and codon to ordered lists of texts and every other
  category to one text; an entry under a child ID maps \<open>parent\<close> to an ordered list of
  texts; and the only entry that is not a mapping is the single text under
  \<open>feature_type\<close>.
\<close>

theorem validate_file_report_shape:
  assumes "validate_file sch lines = Inr rep"
  shows "distinct (map fst rep) \<and> list_all (\<lambda>kv. entry_shape (fst kv) (snd kv)) rep"
proof
  from validate_file_Inr[OF assms] obtain rep1 st n rep2 where
    p: "process_lines sch lines [] init_state 1 = Inr (rep1, st, n)" and
    u: "check_unresolved st rep1 = Inr rep2" and
    f: "check_feature_types sch st rep2 = Inr rep"
    by blast
  have "distinct (map fst rep1)" by (rule process_lines_keys[OF p]) simp
  then have "distinct (map fst rep2)" by (rule check_unresolved_keys[OF u])
  then show d: "distinct (map fst rep)" by (rule check_feature_types_keys[OF f])
  have "entry_shape (fst kv) (snd kv)" if "kv \<in> set rep" for kv
  proof -
    have "map_of rep (fst kv) = Some (snd kv)"
      using map_of_is_SomeI[OF d, of "fst kv" "snd kv"] that by simp
    with validate_file_report_ok[OF assms] have "entry_ok (fst kv) (snd kv)"
      by (simp add: report_ok_def)
    then show ?thesis by (rule entry_ok_shape)
  qed
  then show "list_all (\<lambda>kv. entry_shape (fst kv) (snd kv)) rep" by (simp add: list_all_iff)
qed

theorem validate_file_report_shape_witness:
  "validate_file (conformant_schema\<lparr>type_permissible_values := Some [''gene'', ''mRNA'']\<rparr>)
     [gff_line [''chr1'', ''src'', ''gene'', ''0'', ''10'', ''.'', ''+'', ''.'', ''ID=gene1''],
      ''chr1'',
      gff_line [''chr1'', ''src'', ''gene'', ''1'', ''10'', ''.'', ''+'', ''.'', ''ID=g2;Parent=p'']] =
     Inr [(LineNo 1, Entry [(''start'', Msg ''Start position must be >= 1: 0'')]),
          (LineNo 2, Entry [(''error'', Msg ''Line must have 9 tab-separated fields'')]),
          (LineNo 3, Entry [(''parent'', Msgs [''Parent ID not found: p'',
                                               ''Circular reference detected for ID: g2''])]),
          (Key ''g2'', Entry [(''parent'', Msgs [''Parent ID not found: p''])]),
          (Key ''feature_type'', Text ''Missing feature types: mRNA'')] \<and>
   list_all (\<lambda>kv. entry_shape (fst kv) (snd kv))
     [(LineNo 1, Entry [(''start'', Msg ''Start position must be >= 1: 0'')]),
      (LineNo 2, Entry [(''error'', Msg ''Line must have 9 tab-separated fields'')]),
      (LineNo 3, Entry [(''parent'', Msgs [''Parent ID not found: p'',
                                           ''Circular reference detected for ID: g2''])]),
      (Key ''g2'', Entry [(''parent'', Msgs [''Parent ID not found: p''])]),
      (Key ''feature_type'', Text ''Missing feature types: mRNA'')]"
proof -
  have run: "validate_file (conformant_schema\<lparr>type_permissible_values := Some [''gene'', ''mRNA'']\<rparr>)
     [gff_line [''chr1'', ''src'', ''gene'', ''0'', ''10'', ''.'', ''+'', ''.'', ''ID=gene1''],
      ''chr1'',
      gff_line [''chr1'', ''src'', ''gene'', ''1'', ''10'', ''.'', ''+'', ''.'', ''ID=g2;Parent=p'']] =
     Inr [(LineNo 1, Entry [(''start'', Msg ''Start position must be >= 1: 0'')]),
          (LineNo 2, Entry [(''error'', Msg ''Line must have 9 tab-separated fields'')]),
          (LineNo 3, Entry [(''parent'', Msgs [''Parent ID not found: p'',
                                               ''Circular reference detected for ID: g2''])]),
          (Key ''g2'', Entry [(''parent'', Msgs [''Parent ID not found: p''])]),
          (Key ''feature_type'', Text ''Missing feature types: mRNA'')]"
    by code_simp
  from validate_file_report_shape[OF run] run show ?thesis by simp
qed

theorem validate_file_report_shape_counterexample:
  "validate_file (conformant_schema\<lparr>type_permissible_values := Some [''gene'', ''mRNA'']\<rparr>)
     [gff_line [''chr1'', ''src'', ''gene'', ''0'', ''10'', ''.'', ''+'', ''.'', ''ID=gene1''],
      ''chr1''] =
   Inr [(LineNo 1, Entry [(''start'', Msg ''Start position must be >= 1: 0'')]),
        (LineNo 2, Entry [(''error'', Msg ''Line must have 9 tab-separated fields'')]),
        (Key ''feature_type'', Text ''Missing feature types: mRNA'')]"
  by code_simp

subsection \<open>What every line with an ID or a Parent attribute gets\<close>

text \<open>
  The closed examples of the first two subsections are instances of general facts: the key \<open>id\<close>
  holds the text of the character check whenever the ID is outside the pattern, also on a
  duplicate; every line with an ID and a Parent attribute gets the circular-reference
  error; and every line with a Parent attribute and no ID raises.
\<close>

lemma validate_fields_no_id: "map_of (fst (validate_fields sch flds st)) ''id'' = None"
  by (simp add: validate_fields_unfold check_phase_other check_strand_other
        check_score_other check_positions_other check_type_other check_source_other
        check_seqid_other)

lemma check_id_result:
  assumes "check_id d e st = Inr (e1, st1, idv)" and "map_of d ''ID'' = Some (Str x)"
    and "map_of e ''id'' = None"
  shows "map_of e1 ''id'' =
     (if \<not> id_pattern x then Some (Msg (''Invalid characters in ID: '' @ x))
      else if x \<in> seen_ids st then Some (Msg (''Duplicate ID: '' @ x)) else None)"
  using assms by (auto simp: check_id_def Let_def update_conv' split: if_splits)

lemma validate_line_id_error:
  assumes "validate_line sch st n line = Inr (errs, st')"
    and "length (line_fields line) = 9"
    and "map_of (line_attributes line) ''ID'' = Some (Str x)"
  shows "map_of errs ''id'' =
     (if \<not> id_pattern x then Some (Msg (''Invalid characters in ID: '' @ x))
      else if x \<in> seen_ids st then Some (Msg (''Duplicate ID: '' @ x)) else None)"
proof -
  from validate_line_Inr[OF assms(1,2)] obtain e1 st1 idv where
    i: "check_id (line_attributes line)
       (check_attributes sch (line_attributes line) (fst (validate_fields sch (line_fields line) st)))
       (snd (validate_fields sch (line_fields line) st)) = Inr (e1, st1, idv)" and
    a: "appended list_categories e1 errs"
    by blast
  have "map_of (check_attributes sch (line_attributes line)
          (fst (validate_fields sch (line_fields line) st))) ''id'' = None"
    by (simp add: check_attributes_other validate_fields_no_id)
  from check_id_result[OF i assms(3) this]
  have "map_of e1 ''id'' =
     (if \<not> id_pattern x then Some (Msg (''Invalid characters in ID: '' @ x))
      else if x \<in> seen_ids st then Some (Msg (''Duplicate ID: '' @ x)) else None)"
    by (simp add: validate_fields_seen_ids)
  moreover have "map_of errs ''id'' = map_of e1 ''id''"
    by (rule appended_other[OF a]) (simp add: list_categories_def)
  ultimately show ?thesis by simp
qed


lemma check_id_value:
  "check_id d e st = Inr (e1, st1, idv) \<Longrightarrow> map_of d ''ID'' = Some (Str c) \<Longrightarrow> idv = Some c"
  by (auto simp: check_id_def Let_def split: if_splits)

lemma record_child_lookup:
  "map_of (record_child p c rel) q =
     (if q = p then Some ((case map_of rel p of None \<Rightarrow> [] | Some cs \<Rightarrow> cs) @ [c])
      else map_of rel q)"
  by (simp add: record_child_def update_conv')

lemma parent_step_records:
  assumes "parent_step (Some c) p a = Inr b"
  shows "\<exists>cs. map_of (parent_relationships (snd b)) p = Some cs \<and> c \<in> set cs"
  using assms
  by (cases a) (auto simp: parent_step_def and_then_Inr record_child_lookup split: if_splits)

lemma parent_step_keeps:
  assumes "parent_step (Some c) q a = Inr b"
    and "\<exists>cs. map_of (parent_relationships (snd a)) p = Some cs \<and> c \<in> set cs"
  shows "\<exists>cs. map_of (parent_relationships (snd b)) p = Some cs \<and> c \<in> set cs"
  using assms
  by (cases a) (auto simp: parent_step_def and_then_Inr record_child_lookup split: if_splits)

lemma check_parent_records:
  assumes "check_parent d (Some c) (e, st) = Inr (e', st')"
    and "map_of d ''Parent'' = Some (Str ps)" and "p \<in> set (py_split (CHR '','') ps)"
  shows "\<exists>cs. map_of (parent_relationships st') p = Some cs \<and> c \<in> set cs"
proof -
  from assms(1,2) have fe:
    "for_each (parent_step (Some c)) (py_split (CHR '','') ps) (e, st) = Inr (e', st')"
    by (simp add: check_parent_def)
  let ?P = "\<lambda>a. \<exists>cs. map_of (parent_relationships (snd a)) p = Some cs \<and> c \<in> set cs"
  have "?P (e', st')"
    by (rule for_each_member[OF fe assms(3), where I = "\<lambda>_. True" and P = ?P])
       (auto intro: parent_step_records parent_step_keeps)
  then show ?thesis by simp
qed

lemma circular_step_message:
  assumes "circular_step st (Some c) p a = Inr b"
    and "\<exists>cs. map_of (parent_relationships st) p = Some cs \<and> c \<in> set cs"
  shows "''Circular reference detected for ID: '' @ c \<in> set (messages b ''parent'')"
  using assms by (auto simp: circular_step_def append_msg_messages)

lemma circular_step_appended: "circular_step st idv p a = Inr b \<Longrightarrow> appended {''parent''} a b"
  by (auto simp: circular_step_def split: option.splits if_splits
           intro: appended_refl appended_one)

lemma validate_line_always_circular:
  assumes "validate_line sch st n line = Inr (errs, st')"
    and "length (line_fields line) = 9"
    and "map_of (line_attributes line) ''ID'' = Some (Str c)"
    and "map_of (line_attributes line) ''Parent'' = Some (Str ps)"
  shows "''Circular reference detected for ID: '' @ c \<in> set (messages errs ''parent'')"
proof -
  let ?d = "line_attributes line"
  let ?m = "''Circular reference detected for ID: '' @ c"
  from reserved_checks_Inr[OF validate_line_reserved[OF assms(1,2)]]
  obtain e1 st1 idv e2 e3 e4 e5 where
    1: "check_id ?d (check_attributes sch ?d (fst (validate_fields sch (line_fields line) st)))
          (snd (validate_fields sch (line_fields line) st)) = Inr (e1, st1, idv)" and
    2: "check_parent ?d idv (e1, st1) = Inr (e2, st')" and
    3: "check_circular ?d idv st' e2 = Inr e3" and
    4: "appended {''alias'', ''note'', ''target'', ''derives_from''} e3 e4" and
    5: "check_gap ?d e4 = Inr e5" and
    6: "appended {''replacement'', ''sequence'', ''variant_seq'', ''amino_acid'', ''codon''} e5 errs"
    by blast
  have idv: "idv = Some c" by (rule check_id_value[OF 1 assms(3)])
  obtain p where p: "p \<in> set (py_split (CHR '','') ps)"
    using py_split_not_Nil[of "CHR '',''" ps] by (cases "py_split (CHR '','') ps") auto
  from 3 assms(4) idv have fe:
    "for_each (circular_step st' (Some c)) (py_split (CHR '','') ps) e2 = Inr e3"
    by (simp add: check_circular_def)
  have rec: "\<exists>cs. map_of (parent_relationships st') p = Some cs \<and> c \<in> set cs"
    using check_parent_records[OF 2[unfolded idv] assms(4) p] .
  have "?m \<in> set (messages e3 ''parent'')"
  proof (rule for_each_member[OF fe p, where I = "\<lambda>_. True"
           and P = "\<lambda>a. ?m \<in> set (messages a ''parent'')"])
    fix a b assume "circular_step st' (Some c) p a = Inr b"
    then show "?m \<in> set (messages b ''parent'')" using rec by (rule circular_step_message)
  next
    fix y a b assume "circular_step st' (Some c) y a = Inr b" and "?m \<in> set (messages a ''parent'')"
    then show "?m \<in> set (messages b ''parent'')"
      by (auto dest: circular_step_appended intro: appended_messages)
  qed simp_all
  then have "?m \<in> set (messages e4 ''parent'')" by (rule appended_messages[OF 4])
  then have "?m \<in> set (messages e5 ''parent'')" by (rule appended_messages[OF check_gap_Inr[OF 5]])
  then show ?thesis by (rule appended_messages[OF 6])
qed


lemma parent_step_unbound:
  assumes "map_of e ''parent'' = None"
  shows "parent_step None p (e, st) = Inl UnboundLocalError"
  using assms by (simp add: parent_step_def and_then_def append_msg_def)

lemma validate_line_parent_without_id:
  assumes "length (line_fields line) = 9"
    and "map_of (line_attributes line) ''ID'' = None"
    and "map_of (line_attributes line) ''Parent'' = Some (Str ps)"
  shows "validate_line sch st n line = Inl UnboundLocalError"
proof -
  let ?d = "line_attributes line"
  let ?e = "check_attributes sch ?d (fst (validate_fields sch (line_fields line) st))"
  let ?s = "snd (validate_fields sch (line_fields line) st)"
  have none: "map_of ?e ''parent'' = None"
    by (simp add: check_attributes_other validate_fields_no_list_category list_categories_def)
  obtain p rest where ps: "py_split (CHR '','') ps = p # rest"
    using py_split_not_Nil[of "CHR '',''" ps] by (cases "py_split (CHR '','') ps") auto
  have "check_parent ?d None (?e, ?s) = Inl UnboundLocalError"
    using assms(3) ps parent_step_unbound[OF none]
    by (simp add: check_parent_def and_then_def)
  moreover have "check_id ?d ?e ?s = Inr (?e, ?s, None)"
    using assms(2) by (simp add: check_id_def)
  ultimately have "reserved_checks ?d ?e ?s = Inl UnboundLocalError"
    by (simp add: reserved_checks_def and_then_def)
  with assms(1) show ?thesis
    by (simp add: validate_line_def Let_def split_beta line_fields_def line_attributes_def)
qed

end
